theory Spec2Isabelle
  imports Main "HOL-Library.Sublist"
begin

section \<open>Data model\<close>

text \<open>
  The program (\<^verbatim>\<open>data/process_data.py\<close>) is a pipeline over pandas data frames:
  \<^verbatim>\<open>load_data\<close>, \<^verbatim>\<open>clean_data\<close>, \<^verbatim>\<open>save_data\<close>, run by \<^verbatim>\<open>main\<close>.

  A cell of a frame is a string, an integer or a missing value (pandas' \<^verbatim>\<open>NaN\<close> and
  \<^verbatim>\<open>None\<close>, which every operation used here treats alike). Strings are ASCII
  character lists. Floating-point cells are not modelled.

  A frame is its list of column labels and its list of rows, each row holding one cell
  per column. The row index is the default \<^verbatim>\<open>RangeIndex\<close> that \<^verbatim>\<open>pd.read_csv\<close> and
  \<^verbatim>\<open>pd.merge\<close> produce, so the label \<^verbatim>\<open>0\<close> is the first row.
\<close>

datatype cell = Str string | Num int | NaN

record dataframe =
  columns :: "string list"
  rows :: "cell list list"

text \<open>The exceptions the program can let escape.\<close>

datatype error =
  KeyError | AttributeError | ValueError | IndexError | MergeError | FileError | StorageError

definition wf_frame :: "dataframe \<Rightarrow> bool" where
  "wf_frame df = list_all (\<lambda>r. length r = length (columns df)) (rows df)"

section \<open>Strings\<close>

text \<open>
  Python's \<^verbatim>\<open>s.split(sep)\<close> for a one-character separator: every occurrence of the
  separator cuts, empty pieces are kept, and the result is never empty.
\<close>

fun str_split :: "char \<Rightarrow> string \<Rightarrow> string list" where
  "str_split sep [] = [[]]"
| "str_split sep (c # cs) =
     (if c = sep then [] # str_split sep cs
      else (case str_split sep cs of
              [] \<Rightarrow> [[c]]
            | p # ps \<Rightarrow> (c # p) # ps))"

text \<open>
  \<^verbatim>\<open>c.split("-")[0]\<close>: on a value that is not a string the attribute lookup fails;
  indexing an empty list would raise \<^verbatim>\<open>IndexError\<close>.
\<close>

definition split_first :: "cell \<Rightarrow> error + string" where
  "split_first c =
     (case c of
        Str s \<Rightarrow> (case str_split (CHR ''-'') s of
                    [] \<Rightarrow> Inl IndexError
                  | p # _ \<Rightarrow> Inr p)
      | _ \<Rightarrow> Inl AttributeError)"

text \<open>A list comprehension over a fallible function stops at the first exception.\<close>

fun map_err :: "('a \<Rightarrow> error + 'b) \<Rightarrow> 'a list \<Rightarrow> error + 'b list" where
  "map_err f [] = Inr []"
| "map_err f (x # xs) =
     (case f x of
        Inl e \<Rightarrow> Inl e
      | Inr y \<Rightarrow> (case map_err f xs of
                    Inl e \<Rightarrow> Inl e
                  | Inr ys \<Rightarrow> Inr (y # ys)))"

section \<open>Series operations used by the cleaner\<close>

text \<open>
  The positions of a label among the column labels. \<^verbatim>\<open>df[name]\<close> raises
  \<^verbatim>\<open>KeyError\<close> when there is none, is a Series when there is one, and is a
  DataFrame when there are several.
\<close>

definition positions :: "string \<Rightarrow> string list \<Rightarrow> nat list" where
  "positions name cs = filter (\<lambda>j. cs ! j = name) [0..<length cs]"

definition column_at :: "nat \<Rightarrow> cell list list \<Rightarrow> cell list" where
  "column_at j rs = map (\<lambda>r. r ! j) rs"

definition is_Str :: "cell \<Rightarrow> bool" where
  "is_Str c = (case c of Str _ \<Rightarrow> True | _ \<Rightarrow> False)"

text \<open>
  \<^verbatim>\<open>df[name].str\<close>. A DataFrame has no \<^verbatim>\<open>.str\<close>; a Series has one only when its
  values are strings (an empty Series has the object dtype, a Series without any
  string has a numeric dtype).
\<close>

definition str_accessor :: "dataframe \<Rightarrow> string \<Rightarrow> error + cell list" where
  "str_accessor df name =
     (case positions name (columns df) of
        [] \<Rightarrow> Inl KeyError
      | [j] \<Rightarrow> (let col = column_at j (rows df)
                in if col = [] \<or> list_ex is_Str col then Inr col else Inl AttributeError)
      | _ \<Rightarrow> Inl AttributeError)"

text \<open>
  \<^verbatim>\<open>.str.split(";", expand=True)\<close>: a string becomes its pieces, a value that is not
  a string becomes a row of missing values, and every row is padded with missing
  values to the longest row.
\<close>

definition split_width :: "cell list \<Rightarrow> nat" where
  "split_width col =
     foldr max (map (\<lambda>c. case c of Str s \<Rightarrow> length (str_split (CHR '';'') s) | _ \<Rightarrow> 1) col) 0"

definition split_row :: "nat \<Rightarrow> cell \<Rightarrow> cell list" where
  "split_row w c =
     (case c of
        Str s \<Rightarrow> (let ts = str_split (CHR '';'') s
                  in map Str ts @ replicate (w - length ts) NaN)
      | _ \<Rightarrow> replicate w NaN)"

definition str_split_expand :: "cell list \<Rightarrow> cell list list" where
  "str_split_expand col = map (split_row (split_width col)) col"

text \<open>\<^verbatim>\<open>categories.loc[0, :]\<close>: the row labelled 0, \<^verbatim>\<open>KeyError\<close> when there is no row.\<close>

definition loc0 :: "cell list list \<Rightarrow> error + cell list" where
  "loc0 rs = (case rs of [] \<Rightarrow> Inl KeyError | r # _ \<Rightarrow> Inr r)"

text \<open>\<^verbatim>\<open>.str[-1]\<close>: the last character of a string; missing on the empty string and
  on a value that is not a string.\<close>

definition str_last :: "cell \<Rightarrow> cell" where
  "str_last c =
     (case c of
        Str s \<Rightarrow> (if s = [] then NaN else Str [last s])
      | _ \<Rightarrow> NaN)"

text \<open>
  \<^verbatim>\<open>int(x)\<close> as \<^verbatim>\<open>.astype(int)\<close> applies it to the cells \<^verbatim>\<open>.str[-1]\<close> leaves: a
  one-character string is an integer exactly when the character is a decimal digit, and
  a missing value cannot be converted. Longer strings do not reach this function.
\<close>

definition digit_value :: "char \<Rightarrow> int option" where
  "digit_value c =
     (let n = (of_char c :: nat)
      in if 48 \<le> n \<and> n \<le> 57 then Some (int n - 48) else None)"

definition to_int :: "cell \<Rightarrow> error + int" where
  "to_int c =
     (case c of
        Str [d] \<Rightarrow> (case digit_value d of None \<Rightarrow> Inl ValueError | Some v \<Rightarrow> Inr v)
      | Str _ \<Rightarrow> Inl ValueError
      | Num v \<Rightarrow> Inr v
      | NaN \<Rightarrow> Inl ValueError)"

text \<open>Line 37: \<^verbatim>\<open>categories[column].str[-1].astype(int)\<close>.\<close>

definition extract_ints :: "cell list \<Rightarrow> error + int list" where
  "extract_ints col = map_err to_int (map str_last col)"

text \<open>Line 40: \<^verbatim>\<open>lambda x: 1 if x == 2 else x\<close>.\<close>

definition binarize :: "int \<Rightarrow> int" where
  "binarize x = (if x = 2 then 1 else x)"

text \<open>Lines 37 to 43 for one column; \<^verbatim>\<open>pd.to_numeric\<close> leaves integers as they are.\<close>

definition convert_column :: "cell list \<Rightarrow> error + cell list" where
  "convert_column col =
     (case extract_ints col of
        Inl e \<Rightarrow> Inl e
      | Inr vs \<Rightarrow> Inr (map (\<lambda>v. Num (binarize v)) vs))"

definition set_column :: "nat \<Rightarrow> cell list \<Rightarrow> cell list list \<Rightarrow> cell list list" where
  "set_column j vs rs = map (\<lambda>(r, v). r[j := v]) (zip rs vs)"

text \<open>
  The loop of lines 35 to 43 over the column labels. \<^verbatim>\<open>categories[column]\<close> is a
  DataFrame when the label occurs more than once, and \<^verbatim>\<open>.str\<close> then fails.
\<close>

fun convert_columns :: "string list \<Rightarrow> dataframe \<Rightarrow> error + dataframe" where
  "convert_columns [] cat = Inr cat"
| "convert_columns (c # cs) cat =
     (case positions c (columns cat) of
        [j] \<Rightarrow> (case convert_column (column_at j (rows cat)) of
                  Inl e \<Rightarrow> Inl e
                | Inr vs \<Rightarrow> convert_columns cs (cat\<lparr>rows := set_column j vs (rows cat)\<rparr>))
      | _ \<Rightarrow> Inl AttributeError)"

section \<open>The cleaner\<close>

text \<open>\<^verbatim>\<open>df.drop(columns=[name])\<close> for a label that is present.\<close>

definition drop_at :: "nat list \<Rightarrow> 'a list \<Rightarrow> 'a list" where
  "drop_at js xs = map (\<lambda>i. xs ! i) (filter (\<lambda>i. i \<notin> set js) [0..<length xs])"

definition drop_columns :: "string \<Rightarrow> dataframe \<Rightarrow> dataframe" where
  "drop_columns name df =
     (let js = positions name (columns df)
      in \<lparr>columns = drop_at js (columns df), rows = map (drop_at js) (rows df)\<rparr>)"

text \<open>\<^verbatim>\<open>pd.concat([a, b], axis=1)\<close> of two frames over the same index.\<close>

definition concat_columns :: "dataframe \<Rightarrow> dataframe \<Rightarrow> dataframe" where
  "concat_columns a b =
     \<lparr>columns = columns a @ columns b,
      rows = map (\<lambda>(r, s). r @ s) (zip (rows a) (rows b))\<rparr>"

text \<open>\<^verbatim>\<open>drop_duplicates()\<close>: a row equal to an earlier row in every column is dropped.\<close>

fun keep_first :: "'a list \<Rightarrow> 'a list \<Rightarrow> 'a list" where
  "keep_first seen [] = []"
| "keep_first seen (x # xs) =
     (if x \<in> set seen then keep_first seen xs else x # keep_first (x # seen) xs)"

definition drop_duplicates :: "dataframe \<Rightarrow> dataframe" where
  "drop_duplicates df = df\<lparr>rows := keep_first [] (rows df)\<rparr>"

text \<open>Lines 28 to 46 of \<^verbatim>\<open>clean_data\<close>: the frame before duplicates are dropped.\<close>

definition expand_categories :: "dataframe \<Rightarrow> error + dataframe" where
  "expand_categories df =
     (case str_accessor df ''categories'' of
        Inl e \<Rightarrow> Inl e
      | Inr col \<Rightarrow>
          (let categories = str_split_expand col
           in case loc0 categories of
                Inl e \<Rightarrow> Inl e
              | Inr row \<Rightarrow>
                  (case map_err split_first row of
                     Inl e \<Rightarrow> Inl e
                   | Inr category_colnames \<Rightarrow>
                       (case convert_columns category_colnames
                               \<lparr>columns = category_colnames, rows = categories\<rparr> of
                          Inl e \<Rightarrow> Inl e
                        | Inr cat \<Rightarrow>
                            Inr (concat_columns (drop_columns ''categories'' df) cat)))))"

definition clean_data :: "dataframe \<Rightarrow> error + dataframe" where
  "clean_data df =
     (case expand_categories df of
        Inl e \<Rightarrow> Inl e
      | Inr d \<Rightarrow> Inr (drop_duplicates d))"

section \<open>The loader\<close>

text \<open>
  \<^verbatim>\<open>pd.read_csv\<close> is the function \<open>read_csv\<close> from a path to the frame parsed from
  the file there, or to the error an unreadable or malformed file raises.

  \<^verbatim>\<open>pd.merge(messages, categories, on=["id"], how="inner")\<close>, in the order pandas
  works:
  \<^item> the key is looked up in the right frame and then in the left one: \<^verbatim>\<open>KeyError\<close>
    when a frame has no column \<^verbatim>\<open>id\<close>, \<^verbatim>\<open>ValueError\<close> when it has several;
  \<^item> the dtypes of the two key columns are compared: \<^verbatim>\<open>ValueError\<close> when one is
    numeric and the other holds strings. A column without a string cell has a numeric
    dtype, a column with one has the object dtype; an object column that also holds
    integers is inferred as mixed integers and let through, and nothing is compared
    when a key column has no row;
  \<^item> a label other than the key that both frames have gets the suffix \<^verbatim>\<open>_x\<close> on
    the left and \<^verbatim>\<open>_y\<close> on the right; \<^verbatim>\<open>MergeError\<close> when the suffix makes a label
    of one side equal to an earlier label of that side (pandas 2);
  \<^item> every left row is paired, in the order of the left rows, with every right row
    of the same key; the result has the left columns and then the right columns
    without the key. Keys are compared cell by cell, and two missing keys are equal,
    as pandas has it.
\<close>

definition is_Num :: "cell \<Rightarrow> bool" where
  "is_Num c = (case c of Num _ \<Rightarrow> True | _ \<Rightarrow> False)"

definition numeric_key :: "cell list \<Rightarrow> bool" where
  "numeric_key col = (\<not> list_ex is_Str col)"

definition text_key :: "cell list \<Rightarrow> bool" where
  "text_key col = (list_ex is_Str col \<and> \<not> list_ex is_Num col)"

definition incompatible_keys :: "cell list \<Rightarrow> cell list \<Rightarrow> bool" where
  "incompatible_keys lk rk =
     (lk \<noteq> [] \<and> rk \<noteq> [] \<and>
      (text_key lk \<and> numeric_key rk \<or> numeric_key lk \<and> text_key rk))"

definition suffixed :: "string \<Rightarrow> string list \<Rightarrow> string \<Rightarrow> string" where
  "suffixed sfx other c = (if c \<noteq> ''id'' \<and> c \<in> set other then c @ sfx else c)"

text \<open>
  \<^verbatim>\<open>llabels.duplicated() & ~left.duplicated()\<close>: a position whose new label occurred
  earlier among the new labels while its old label did not occur earlier among the old.
\<close>

definition introduces_duplicates :: "string list \<Rightarrow> string list \<Rightarrow> bool" where
  "introduces_duplicates old new =
     list_ex (\<lambda>k. new ! k \<in> set (take k new) \<and> old ! k \<notin> set (take k old))
       [0..<length old]"

definition merge_inner :: "dataframe \<Rightarrow> dataframe \<Rightarrow> error + dataframe" where
  "merge_inner left right =
     (case positions ''id'' (columns right) of
        [] \<Rightarrow> Inl KeyError
      | [j] \<Rightarrow>
          (case positions ''id'' (columns left) of
             [] \<Rightarrow> Inl KeyError
           | [i] \<Rightarrow>
               if incompatible_keys (column_at i (rows left)) (column_at j (rows right))
               then Inl ValueError
               else
                 (let llabels = map (suffixed ''_x'' (columns right)) (columns left);
                      rlabels = map (suffixed ''_y'' (columns left)) (drop_at [j] (columns right))
                  in if introduces_duplicates (columns left) llabels \<or>
                        introduces_duplicates (drop_at [j] (columns right)) rlabels
                     then Inl MergeError
                     else
                       Inr \<lparr>columns = llabels @ rlabels,
                            rows =
                              concat (map (\<lambda>l. map (\<lambda>r. l @ drop_at [j] r)
                                                    (filter (\<lambda>r. r ! j = l ! i) (rows right)))
                                          (rows left))\<rparr>)
           | _ \<Rightarrow> Inl ValueError)
      | _ \<Rightarrow> Inl ValueError)"

definition load_data ::
  "(string \<Rightarrow> error + dataframe) \<Rightarrow> string \<Rightarrow> string \<Rightarrow> error + dataframe" where
  "load_data read_csv messages_filepath categories_filepath =
     (case read_csv messages_filepath of
        Inl e \<Rightarrow> Inl e
      | Inr messages \<Rightarrow>
          (case read_csv categories_filepath of
             Inl e \<Rightarrow> Inl e
           | Inr categories \<Rightarrow> merge_inner messages categories))"


section \<open>The writer\<close>

text \<open>
  \<^verbatim>\<open>create_engine(f'sqlite:///{database_filename}')\<close> names an SQLite database. For
  the names \<^verbatim>\<open>''\<close> and \<^verbatim>\<open>:memory:\<close> that is a private in-memory database, new
  and empty for every engine and gone with it. Every other name is a database file: a
  file that does not exist yet is the empty database, which the engine creates on the
  first write, and a file can be unwritable.

  A database holds tables by name. SQLite compares the names of tables and of columns
  without regard to the case of ASCII letters, refuses a table without columns or with
  two columns of the same name, and stores integers in 64 bits.
\<close>

definition lower_char :: "char \<Rightarrow> char" where
  "lower_char c =
     (let n = (of_char c :: nat)
      in if 65 \<le> n \<and> n \<le> 90 then char_of (n + 32) else c)"

definition table_key :: "string \<Rightarrow> string" where
  "table_key name = map lower_char name"

type_synonym database = "string \<rightharpoonup> dataframe"

datatype location = Unwritable | Database database

type_synonym store = "string \<Rightarrow> location"

definition has_table :: "database \<Rightarrow> string \<Rightarrow> bool" where
  "has_table db name = (db (table_key name) \<noteq> None)"

definition drop_table :: "string \<Rightarrow> database \<Rightarrow> database" where
  "drop_table name db = db(table_key name := None)"

definition schema_ok :: "string list \<Rightarrow> bool" where
  "schema_ok cs = (cs \<noteq> [] \<and> distinct (map table_key cs))"

definition create_table :: "string \<Rightarrow> string list \<Rightarrow> database \<Rightarrow> error + database" where
  "create_table name cs db =
     (if has_table db name \<or> \<not> schema_ok cs then Inl StorageError
      else Inr (db(table_key name \<mapsto> \<lparr>columns = cs, rows = []\<rparr>)))"

definition storable :: "cell \<Rightarrow> bool" where
  "storable c =
     (case c of
        Num n \<Rightarrow> - (2 ^ 63) \<le> n \<and> n < 2 ^ 63
      | _ \<Rightarrow> True)"

text \<open>\<^verbatim>\<open>INSERT\<close> adds the rows after those the table holds.\<close>

definition insert_rows :: "string \<Rightarrow> cell list list \<Rightarrow> database \<Rightarrow> error + database" where
  "insert_rows name rs db =
     (case db (table_key name) of
        None \<Rightarrow> Inl StorageError
      | Some t \<Rightarrow>
          if list_all (list_all storable) rs
          then Inr (db(table_key name \<mapsto> t\<lparr>rows := rows t @ rs\<rparr>))
          else Inl StorageError)"

text \<open>
  \<^verbatim>\<open>df.to_sql(name, engine, index=False, if_exists="replace")\<close>: when a table of that
  name exists it is dropped; the table is created with the columns of the frame; the
  rows of the frame are inserted, without the row index.
\<close>

definition to_sql :: "dataframe \<Rightarrow> string \<Rightarrow> database \<Rightarrow> error + database" where
  "to_sql df name db =
     (let db1 = (if has_table db name then drop_table name db else db)
      in case create_table name (columns df) db1 of
           Inl e \<Rightarrow> Inl e
         | Inr db2 \<Rightarrow> insert_rows name (rows df) db2)"

definition in_memory :: "string \<Rightarrow> bool" where
  "in_memory database_filename =
     (database_filename = [] \<or> database_filename = '':memory:'')"

definition save_data :: "dataframe \<Rightarrow> string \<Rightarrow> store \<Rightarrow> error + store" where
  "save_data df database_filename st =
     (if in_memory database_filename
      then (case to_sql df ''DisasterResponse'' Map.empty of
              Inl e \<Rightarrow> Inl e
            | Inr _ \<Rightarrow> Inr st)
      else (case st database_filename of
              Unwritable \<Rightarrow> Inl StorageError
            | Database db \<Rightarrow>
                (case to_sql df ''DisasterResponse'' db of
                   Inl e \<Rightarrow> Inl e
                 | Inr db' \<Rightarrow> Inr (st(database_filename := Database db')))))"

text \<open>
  Reading a table back from a location with a new engine; an in-memory name gives a new,
  empty database.
\<close>

definition read_table :: "store \<Rightarrow> string \<Rightarrow> string \<Rightarrow> dataframe option" where
  "read_table st database_filename name =
     (if in_memory database_filename then None
      else (case st database_filename of
              Unwritable \<Rightarrow> None
            | Database db \<Rightarrow> db (table_key name)))"

section \<open>The command line\<close>

text \<open>
  The world \<^verbatim>\<open>main\<close> runs in: the files \<^verbatim>\<open>pd.read_csv\<close> reads, the store, and
  the lines printed to standard output, one entry per call of \<^verbatim>\<open>print\<close>. The
  result is the exception that escapes \<^verbatim>\<open>main\<close>, if any, and the world it leaves.
  What a write that raises leaves in the store is not modelled: the store is then
  given as it was before the write.
\<close>

record world =
  files :: "string \<Rightarrow> error + dataframe"
  store :: store
  stdout :: "string list"

definition print :: "string \<Rightarrow> world \<Rightarrow> world" where
  "print s w = w\<lparr>stdout := stdout w @ [s]\<rparr>"

definition loading_message :: "string \<Rightarrow> string \<Rightarrow> string" where
  "loading_message m c =
     ''Loading data...\<newline>    MESSAGES: '' @ m @ ''\<newline>    CATEGORIES: '' @ c"

definition saving_message :: "string \<Rightarrow> string" where
  "saving_message d = ''Saving data...\<newline>    DATABASE: '' @ d"

definition usage_message :: string where
  "usage_message =
     ''Please provide the filepaths of the messages and categories '' @
     ''datasets as the first and second argument respectively, as '' @
     ''well as the filepath of the database to save the cleaned data '' @
     ''to as the third argument. \<newline>\<newline>Example: python process_data.py '' @
     ''disaster_messages.csv disaster_categories.csv '' @
     ''DisasterResponse.db''"

definition main :: "string list \<Rightarrow> world \<Rightarrow> error option \<times> world" where
  "main argv w =
     (case argv of
        [prog, messages_filepath, categories_filepath, database_filepath] \<Rightarrow>
          (let w1 = print (loading_message messages_filepath categories_filepath) w
           in case load_data (files w1) messages_filepath categories_filepath of
                Inl e \<Rightarrow> (Some e, w1)
              | Inr df \<Rightarrow>
                  (let w2 = print ''Cleaning data...'' w1
                   in case clean_data df of
                        Inl e \<Rightarrow> (Some e, w2)
                      | Inr cleaned \<Rightarrow>
                          (let w3 = print (saving_message database_filepath) w2
                           in case save_data cleaned database_filepath (store w3) of
                                Inl e \<Rightarrow> (Some e, w3)
                              | Inr st \<Rightarrow>
                                  (None,
                                   print ''Cleaned data saved to database!''
                                     (w3\<lparr>store := st\<rparr>)))))
      | _ \<Rightarrow> (None, print usage_message w))"

text \<open>
  The exit status of the process: 0 when \<^verbatim>\<open>main\<close> returns, since the program never
  calls \<^verbatim>\<open>sys.exit\<close>, and 1 when an exception escapes.
\<close>

definition exit_status :: "error option \<Rightarrow> nat" where
  "exit_status r = (case r of None \<Rightarrow> 0 | Some _ \<Rightarrow> 1)"

section \<open>The specification's reading of the extracted character\<close>

text \<open>
  The specification describes the character that line 37 parses as the character after
  the last \<^verbatim>\<open>-\<close> of a token. This is that description, to be compared with
  \<open>str_last\<close>, which the code uses: the text after the last \<^verbatim>\<open>-\<close> is the last piece
  of the split on \<^verbatim>\<open>-\<close>, and the character is its first one. There is none when
  the token has no \<^verbatim>\<open>-\<close> or ends with it.
\<close>

definition char_after_last_dash :: "string \<Rightarrow> char option" where
  "char_after_last_dash t =
     (if CHR ''-'' \<in> set t
      then (case last (str_split (CHR ''-'') t) of [] \<Rightarrow> None | c # _ \<Rightarrow> Some c)
      else None)"

section \<open>Column labels and their positions\<close>

lemma positions_empty_iff: "positions name cs = [] \<longleftrightarrow> name \<notin> set cs"
  by (auto simp: positions_def filter_empty_conv in_set_conv_nth)

lemma positions_mem: "j \<in> set (positions name cs) \<longleftrightarrow> j < length cs \<and> cs ! j = name"
  by (auto simp: positions_def)

lemma positions_distinct: "distinct (positions name cs)"
  by (simp add: positions_def)

lemma singleton_set_distinct: "set xs = {j} \<Longrightarrow> distinct xs \<Longrightarrow> xs = [j]"
proof (cases xs)
  case Nil
  assume "set xs = {j}"
  with Nil show ?thesis by simp
next
  case (Cons a as)
  assume s: "set xs = {j}" and d: "distinct xs"
  from s Cons have a: "a = j" by auto
  from s Cons d a have "set as \<subseteq> {j}" "j \<notin> set as" by auto
  then have "as = []" by (cases as) auto
  with a Cons show ?thesis by simp
qed

lemma positions_single_distinct:
  assumes "distinct cs" and "name \<in> set cs"
  shows "\<exists>j. positions name cs = [j]"
proof -
  from assms(2) obtain j where j: "j < length cs" "cs ! j = name"
    by (auto simp: in_set_conv_nth)
  have "set (positions name cs) = {j}"
    using j assms(1) by (auto simp: positions_mem nth_eq_iff_index_eq)
  moreover have "distinct (positions name cs)" by (rule positions_distinct)
  ultimately have "positions name cs = [j]"
    by (rule singleton_set_distinct)
  then show ?thesis ..
qed

lemma str_split_expand_Nil: "str_split_expand [] = []"
  by (simp add: str_split_expand_def)

section \<open>Lists, splitting and duplicates\<close>

lemma map_err_Inr_iff:
  "map_err f xs = Inr ys \<longleftrightarrow> map f xs = map Inr ys"
proof (induction xs arbitrary: ys)
  case Nil
  then show ?case by auto
next
  case (Cons x xs)
  show ?case
  proof (cases "f x")
    case (Inl e)
    then show ?thesis by (cases ys) auto
  next
    case (Inr y)
    show ?thesis
    proof (cases "map_err f xs")
      case (Inl e)
      with Inr Cons.IH show ?thesis by (cases ys) auto
    next
      case r: (Inr zs)
      with Inr Cons.IH[of zs] Cons.IH show ?thesis by (cases ys) auto
    qed
  qed
qed

lemma map_err_length: "map_err f xs = Inr ys \<Longrightarrow> length ys = length xs"
  by (metis map_err_Inr_iff length_map)

lemma map_err_nth:
  "map_err f xs = Inr ys \<Longrightarrow> i < length xs \<Longrightarrow> f (xs ! i) = Inr (ys ! i)"
  by (metis map_err_Inr_iff length_map nth_map)

lemma map_err_total:
  assumes "\<forall>x\<in>set xs. \<exists>y. f x = Inr y"
  shows "\<exists>ys. map_err f xs = Inr ys"
  using assms by (induction xs) auto

lemma str_split_nonempty: "str_split sep s \<noteq> []"
  by (induction s) (auto split: list.splits)

lemma str_split_hd: "hd (str_split sep s) = takeWhile (\<lambda>c. c \<noteq> sep) s"
  by (induction s) (auto split: list.splits simp: str_split_nonempty)

lemma str_split_concat:
  "concat (map (\<lambda>p. sep # p) (str_split sep s)) = sep # s"
  by (induction s) (auto split: list.splits simp: str_split_nonempty)

lemma str_split_no_sep: "p \<in> set (str_split sep s) \<Longrightarrow> sep \<notin> set p"
  by (induction s arbitrary: p) (auto split: list.splits if_splits simp: str_split_nonempty)

lemma keep_first_set: "set (keep_first seen xs) = set xs - set seen"
  by (induction seen xs rule: keep_first.induct) auto

lemma keep_first_distinct: "distinct (keep_first seen xs)"
  by (induction seen xs rule: keep_first.induct) (auto simp: keep_first_set)

lemma keep_first_subseq: "subseq (keep_first seen xs) xs"
  by (induction seen xs rule: keep_first.induct) auto

lemma keep_first_snoc:
  "keep_first seen (xs @ [x]) =
     (if x \<in> set seen \<union> set xs then keep_first seen xs else keep_first seen xs @ [x])"
  by (induction seen xs rule: keep_first.induct) auto

lemma keep_first_distinct_id: "distinct xs \<Longrightarrow> set xs \<inter> set seen = {} \<Longrightarrow> keep_first seen xs = xs"
  by (induction seen xs rule: keep_first.induct) auto

section \<open>The column loop\<close>

lemma positions_single_append:
  assumes "positions c (pre @ c # cs) = [j]"
  shows "j = length pre \<and> c \<notin> set pre \<and> c \<notin> set cs"
proof -
  have m: "\<And>k. k \<in> set (positions c (pre @ c # cs)) \<Longrightarrow> k = j"
    using assms by simp
  have "length pre \<in> set (positions c (pre @ c # cs))"
    by (simp add: positions_mem)
  from m[OF this] have j: "j = length pre" by simp
  have "c \<notin> set pre"
  proof
    assume "c \<in> set pre"
    then obtain k where k: "k < length pre" "pre ! k = c" by (auto simp: in_set_conv_nth)
    then have "k \<in> set (positions c (pre @ c # cs))"
      by (simp add: positions_mem nth_append)
    from m[OF this] j k show False by simp
  qed
  moreover have "c \<notin> set cs"
  proof
    assume "c \<in> set cs"
    then obtain k where k: "k < length cs" "cs ! k = c" by (auto simp: in_set_conv_nth)
    then have "length pre + Suc k \<in> set (positions c (pre @ c # cs))"
      by (simp add: positions_mem nth_append)
    from m[OF this] j show False by simp
  qed
  ultimately show ?thesis using j by simp
qed

lemma convert_column_result:
  assumes "convert_column col = Inr vs"
  shows "length vs = length col \<and>
         (\<forall>i<length col. \<exists>v. to_int (str_last (col ! i)) = Inr v \<and> vs ! i = Num (binarize v))"
proof -
  from assms obtain ns where ns: "extract_ints col = Inr ns" "vs = map (\<lambda>v. Num (binarize v)) ns"
    by (auto simp: convert_column_def split: sum.splits)
  from ns(1) have e: "map_err to_int (map str_last col) = Inr ns"
    by (simp add: extract_ints_def)
  from map_err_length[OF e] have l: "length ns = length col" by simp
  have "\<forall>i<length col. to_int (str_last (col ! i)) = Inr (ns ! i)"
    using map_err_nth[OF e] by simp
  with l ns(2) show ?thesis by simp
qed

lemma set_column_nth:
  assumes "length vs = length rs" and "i < length rs"
  shows "set_column j vs rs ! i = (rs ! i)[j := vs ! i]"
  using assms by (simp add: set_column_def)

lemma set_column_length: "length vs = length rs \<Longrightarrow> length (set_column j vs rs) = length rs"
  by (simp add: set_column_def)

lemma convert_columns_result:
  assumes "convert_columns cs cat = Inr cat'"
    and "columns cat = pre @ cs"
    and "\<forall>r\<in>set (rows cat). length r = length (columns cat)"
  shows "columns cat' = columns cat \<and> distinct cs \<and> set cs \<inter> set pre = {} \<and>
         length (rows cat') = length (rows cat) \<and>
         (\<forall>i<length (rows cat).
            length (rows cat' ! i) = length (columns cat) \<and>
            (\<forall>k<length pre. rows cat' ! i ! k = rows cat ! i ! k) \<and>
            (\<forall>k. length pre \<le> k \<and> k < length (columns cat) \<longrightarrow>
                 (\<exists>v. to_int (str_last (rows cat ! i ! k)) = Inr v \<and>
                      rows cat' ! i ! k = Num (binarize v))))"
  using assms
proof (induction cs arbitrary: cat pre)
  case Nil
  then show ?case by auto
next
  case (Cons c cs)
  from Cons.prems(1) obtain j where pj: "positions c (columns cat) = [j]"
    by (auto split: list.splits)
  with Cons.prems(2) have "positions c (pre @ c # cs) = [j]" by simp
  from positions_single_append[OF this]
  have j: "j = length pre" and cpre: "c \<notin> set pre" and ccs: "c \<notin> set cs" by auto
  from Cons.prems(1) pj obtain vs where
    vs: "convert_column (column_at j (rows cat)) = Inr vs" and
    rec: "convert_columns cs (cat\<lparr>rows := set_column j vs (rows cat)\<rparr>) = Inr cat'"
    by (auto split: sum.splits)
  let ?cat1 = "cat\<lparr>rows := set_column j vs (rows cat)\<rparr>"
  from convert_column_result[OF vs]
  have lvs: "length vs = length (rows cat)"
    and vsi: "\<And>i. i < length (rows cat) \<Longrightarrow>
       \<exists>v. to_int (str_last (rows cat ! i ! j)) = Inr v \<and> vs ! i = Num (binarize v)"
    by (auto simp: column_at_def)
  have r1: "\<And>i. i < length (rows cat) \<Longrightarrow> rows ?cat1 ! i = (rows cat ! i)[j := vs ! i]"
    using lvs by (simp add: set_column_nth)
  have l1: "length (rows ?cat1) = length (rows cat)"
    using lvs by (simp add: set_column_length)
  have wf1: "\<forall>r\<in>set (rows ?cat1). length r = length (columns ?cat1)"
  proof
    fix r assume "r \<in> set (rows ?cat1)"
    then obtain i where i: "i < length (rows ?cat1)" "r = rows ?cat1 ! i"
      by (auto simp: in_set_conv_nth)
    with l1 r1 have "r = (rows cat ! i)[j := vs ! i]" by simp
    moreover have "length (rows cat ! i) = length (columns cat)"
      using Cons.prems(3) i l1 by simp
    ultimately show "length r = length (columns ?cat1)" by simp
  qed
  have c1: "columns ?cat1 = (pre @ [c]) @ cs"
    using Cons.prems(2) by simp
  note IH = Cons.IH[OF rec c1 wf1]
  have cols: "columns cat' = columns cat" using IH by simp
  have dist: "distinct (c # cs)" using IH ccs by simp
  have disj: "set (c # cs) \<inter> set pre = {}" using IH cpre by auto
  have len: "length (rows cat') = length (rows cat)" using IH l1 by simp
  have cells: "length (rows cat' ! i) = length (columns cat) \<and>
            (\<forall>k<length pre. rows cat' ! i ! k = rows cat ! i ! k) \<and>
            (\<forall>k. length pre \<le> k \<and> k < length (columns cat) \<longrightarrow>
                 (\<exists>v. to_int (str_last (rows cat ! i ! k)) = Inr v \<and>
                      rows cat' ! i ! k = Num (binarize v)))"
    if i: "i < length (rows cat)" for i
  proof -
    from i l1 have i1: "i < length (rows ?cat1)" by simp
    from IH i1 have
      a: "length (rows cat' ! i) = length (columns ?cat1)" and
      b: "\<And>k. k < length (pre @ [c]) \<Longrightarrow> rows cat' ! i ! k = rows ?cat1 ! i ! k" and
      d: "\<And>k. length (pre @ [c]) \<le> k \<Longrightarrow> k < length (columns ?cat1) \<Longrightarrow>
              \<exists>v. to_int (str_last (rows ?cat1 ! i ! k)) = Inr v \<and>
                  rows cat' ! i ! k = Num (binarize v)"
      by blast+
    have li: "length (rows cat ! i) = length (columns cat)"
      using Cons.prems(3) i by simp
    have jlt: "j < length (columns cat)" using j Cons.prems(2) by simp
    have p1: "\<forall>k<length pre. rows cat' ! i ! k = rows cat ! i ! k"
    proof (intro allI impI)
      fix k assume k: "k < length pre"
      then have "rows cat' ! i ! k = rows ?cat1 ! i ! k" using b[of k] by simp
      also have "\<dots> = rows cat ! i ! k" using r1[OF i] k j by simp
      finally show "rows cat' ! i ! k = rows cat ! i ! k" .
    qed
    have p2: "\<forall>k. length pre \<le> k \<and> k < length (columns cat) \<longrightarrow>
                 (\<exists>v. to_int (str_last (rows cat ! i ! k)) = Inr v \<and>
                      rows cat' ! i ! k = Num (binarize v))"
    proof (intro allI impI)
      fix k assume k: "length pre \<le> k \<and> k < length (columns cat)"
      show "\<exists>v. to_int (str_last (rows cat ! i ! k)) = Inr v \<and>
                      rows cat' ! i ! k = Num (binarize v)"
      proof (cases "k = j")
        case True
        have "rows cat' ! i ! j = rows ?cat1 ! i ! j" using b[of j] j by simp
        also have "\<dots> = vs ! i" using r1[OF i] li jlt by simp
        finally show ?thesis using vsi[OF i] True by auto
      next
        case False
        with k j have k1: "length (pre @ [c]) \<le> k" by simp
        from d[OF k1] k obtain v where
          v: "to_int (str_last (rows ?cat1 ! i ! k)) = Inr v" "rows cat' ! i ! k = Num (binarize v)"
          by auto
        have "rows ?cat1 ! i ! k = rows cat ! i ! k" using r1[OF i] False by simp
        with v show ?thesis by auto
      qed
    qed
    from a p1 p2 show ?thesis by simp
  qed
  from cols dist disj len cells show ?case by blast
qed

section \<open>The frame before duplicates are dropped\<close>

lemma foldr_max_bound: "x \<in> set xs \<Longrightarrow> x \<le> foldr max xs (0::nat)"
  by (induction xs) auto

lemma split_width_bound:
  assumes "c \<in> set col"
  shows "(case c of Str s \<Rightarrow> length (str_split (CHR '';'') s) | _ \<Rightarrow> 1) \<le> split_width col"
proof -
  let ?f = "\<lambda>c. case c of Str s \<Rightarrow> length (str_split (CHR '';'') s) | _ \<Rightarrow> 1"
  have "?f c \<in> ?f ` set col" using assms by (rule imageI)
  then have "?f c \<in> set (map ?f col)" by (simp only: set_map)
  from foldr_max_bound[OF this] show ?thesis unfolding split_width_def .
qed

lemma to_int_str_last:
  assumes "to_int (str_last c) = Inr v"
  shows "\<exists>s. c = Str s \<and> s \<noteq> [] \<and> digit_value (last s) = Some v"
  using assms
  by (cases c) (auto simp: to_int_def str_last_def split: if_splits option.splits)

lemma split_row_all_Str:
  assumes "c \<in> set col"
    and "\<forall>k<split_width col. is_Str (split_row (split_width col) c ! k)"
  shows "\<exists>s. c = Str s \<and> length (str_split (CHR '';'') s) = split_width col \<and>
             split_row (split_width col) c = map Str (str_split (CHR '';'') s)"
proof (cases c)
  case (Str s)
  let ?ts = "str_split (CHR '';'') s"
  let ?w = "split_width col"
  from split_width_bound[OF assms(1)] Str have le: "length ?ts \<le> ?w" by simp
  have "\<not> length ?ts < ?w"
  proof
    assume lt: "length ?ts < ?w"
    then have "split_row ?w c ! length ?ts = NaN"
      using Str by (simp add: split_row_def Let_def nth_append)
    with assms(2) lt show False by (auto simp: is_Str_def)
  qed
  with le have "length ?ts = ?w" by simp
  with Str show ?thesis by (simp add: split_row_def Let_def)
next
  case (Num n)
  from split_width_bound[OF assms(1)] Num have "0 < split_width col" by simp
  moreover from Num have "split_row (split_width col) c ! 0 = NaN"
    using calculation by (simp add: split_row_def)
  ultimately show ?thesis using assms(2) by (auto simp: is_Str_def)
next
  case NaN
  from split_width_bound[OF assms(1)] NaN have "0 < split_width col" by simp
  moreover from NaN have "split_row (split_width col) c ! 0 = cell.NaN"
    using calculation by (simp add: split_row_def)
  ultimately show ?thesis using assms(2) by (auto simp: is_Str_def)
qed

lemma split_row_length:
  assumes "c \<in> set col"
  shows "length (split_row (split_width col) c) = split_width col"
  using split_width_bound[OF assms]
  by (cases c) (auto simp: split_row_def Let_def)

lemma split_first_Str:
  assumes "split_first c = Inr n"
  shows "\<exists>s. c = Str s \<and> n = hd (str_split (CHR ''-'') s)"
  using assms by (cases c) (auto simp: split_first_def split: list.splits)

lemma concat_columns_nth:
  assumes "length (rows a) = length (rows b)" and "i < length (rows a)"
  shows "rows (concat_columns a b) ! i = rows a ! i @ rows b ! i"
  using assms by (simp add: concat_columns_def)

lemma expand_categories_result:
  assumes "expand_categories df = Inr mid"
  shows "\<exists>j names.
      positions ''categories'' (columns df) = [j] \<and>
      rows df \<noteq> [] \<and>
      distinct names \<and>
      split_width (column_at j (rows df)) = length names \<and>
      columns mid = drop_at [j] (columns df) @ names \<and>
      length (rows mid) = length (rows df) \<and>
      (\<exists>s. rows df ! 0 ! j = Str s \<and>
           names = map (\<lambda>t. hd (str_split (CHR ''-'') t)) (str_split (CHR '';'') s)) \<and>
      (\<forall>i<length (rows df).
          \<exists>s vs. rows df ! i ! j = Str s \<and>
                 length (str_split (CHR '';'') s) = length names \<and>
                 map_err to_int (map (\<lambda>t. str_last (Str t)) (str_split (CHR '';'') s)) = Inr vs \<and>
                 rows mid ! i = drop_at [j] (rows df ! i) @ map (\<lambda>v. Num (binarize v)) vs)"
proof -
  from assms obtain col where acc: "str_accessor df ''categories'' = Inr col"
    by (auto simp: expand_categories_def split: sum.splits)
  then obtain j where pj: "positions ''categories'' (columns df) = [j]"
    and col: "col = column_at j (rows df)"
    by (auto simp: str_accessor_def Let_def split: list.splits if_splits)
  let ?E = "str_split_expand col"
  let ?w = "split_width col"
  from assms acc obtain row where row: "loc0 ?E = Inr row"
    by (auto simp: expand_categories_def Let_def split: sum.splits)
  from assms acc row obtain names where names: "map_err split_first row = Inr names"
    by (auto simp: expand_categories_def Let_def split: sum.splits)
  from assms acc row names obtain cat where
    cat: "convert_columns names \<lparr>columns = names, rows = ?E\<rparr> = Inr cat"
    and mid: "mid = concat_columns (drop_columns ''categories'' df) cat"
    by (auto simp: expand_categories_def Let_def split: sum.splits)
  from row have Ene: "?E \<noteq> []" and row0: "row = ?E ! 0"
    by (auto simp: loc0_def split: list.splits)
  then have rne: "rows df \<noteq> []" and colne: "col \<noteq> []"
    by (auto simp: str_split_expand_def col column_at_def)
  have lcol: "length col = length (rows df)" by (simp add: col column_at_def)
  have lE: "length ?E = length (rows df)" by (simp add: str_split_expand_def lcol)
  have Ei: "\<And>i. i < length (rows df) \<Longrightarrow> ?E ! i = split_row ?w (rows df ! i ! j)"
    by (simp add: str_split_expand_def col column_at_def)
  have coli: "\<And>i. i < length (rows df) \<Longrightarrow> rows df ! i ! j \<in> set col"
    by (auto simp: col column_at_def)
  have lEi: "\<And>i. i < length (rows df) \<Longrightarrow> length (?E ! i) = ?w"
    using Ei coli split_row_length by simp
  have lnames: "length names = ?w"
    using map_err_length[OF names] row0 lEi[of 0] rne by simp
  have wfE: "\<forall>r\<in>set (rows \<lparr>columns = names, rows = ?E\<rparr>).
               length r = length (columns \<lparr>columns = names, rows = ?E\<rparr>)"
  proof
    fix r assume "r \<in> set (rows \<lparr>columns = names, rows = ?E\<rparr>)"
    then obtain i where "i < length ?E" "r = ?E ! i" by (auto simp: in_set_conv_nth)
    with lE lEi lnames show "length r = length (columns \<lparr>columns = names, rows = ?E\<rparr>)"
      by simp
  qed
  have c0: "columns \<lparr>columns = names, rows = ?E\<rparr> = [] @ names" by simp
  note R = convert_columns_result[OF cat c0 wfE]
  from R have dn: "distinct names" by simp
  from R have lcat: "length (rows cat) = length (rows df)" using lE by simp
  from R have cc: "columns cat = names" by simp
  have cell: "\<exists>v. to_int (str_last (?E ! i ! k)) = Inr v \<and> rows cat ! i ! k = Num (binarize v)"
    if "i < length (rows df)" "k < ?w" for i k
    using R that lE lnames by simp
  have lcati: "length (rows cat ! i) = ?w" if "i < length (rows df)" for i
    using R that lE lnames by simp
  have rowi: "\<exists>s vs. rows df ! i ! j = Str s \<and>
                 length (str_split (CHR '';'') s) = length names \<and>
                 map_err to_int (map (\<lambda>t. str_last (Str t)) (str_split (CHR '';'') s)) = Inr vs \<and>
                 rows cat ! i = map (\<lambda>v. Num (binarize v)) vs"
    if i: "i < length (rows df)" for i
  proof -
    have "\<forall>k<?w. is_Str (split_row ?w (rows df ! i ! j) ! k)"
    proof (intro allI impI)
      fix k assume k: "k < ?w"
      from cell[OF i k] obtain v where "to_int (str_last (?E ! i ! k)) = Inr v" by blast
      from to_int_str_last[OF this] show "is_Str (split_row ?w (rows df ! i ! j) ! k)"
        using Ei[OF i] by (auto simp: is_Str_def)
    qed
    from split_row_all_Str[OF coli[OF i] this] obtain s where
      s: "rows df ! i ! j = Str s" "length (str_split (CHR '';'') s) = ?w"
         "split_row ?w (rows df ! i ! j) = map Str (str_split (CHR '';'') s)"
      by blast
    let ?ts = "str_split (CHR '';'') s"
    have Eik: "\<And>k. k < ?w \<Longrightarrow> ?E ! i ! k = Str (?ts ! k)"
      using Ei[OF i] s by simp
    have "\<forall>t\<in>set (map (\<lambda>t. str_last (Str t)) ?ts). \<exists>y. to_int t = Inr y"
    proof
      fix t assume "t \<in> set (map (\<lambda>t. str_last (Str t)) ?ts)"
      then obtain k where k: "k < ?w" "t = str_last (Str (?ts ! k))"
        using s(2) by (auto simp: in_set_conv_nth)
      from cell[OF i k(1)] Eik[OF k(1)] k(2) show "\<exists>y. to_int t = Inr y" by auto
    qed
    from map_err_total[OF this] obtain vs where
      vs: "map_err to_int (map (\<lambda>t. str_last (Str t)) ?ts) = Inr vs" ..
    from map_err_length[OF vs] s(2) have lvs: "length vs = ?w" by simp
    have "rows cat ! i = map (\<lambda>v. Num (binarize v)) vs"
    proof (rule nth_equalityI)
      show "length (rows cat ! i) = length (map (\<lambda>v. Num (binarize v)) vs)"
        using lcati[OF i] lvs by simp
    next
      fix k assume "k < length (rows cat ! i)"
      with lcati[OF i] have k: "k < ?w" by simp
      from cell[OF i k] Eik[OF k] obtain v where
        v: "to_int (str_last (Str (?ts ! k))) = Inr v" "rows cat ! i ! k = Num (binarize v)"
        by auto
      from map_err_nth[OF vs, of k] k s(2) have "to_int (str_last (Str (?ts ! k))) = Inr (vs ! k)"
        by simp
      with v have "v = vs ! k" by simp
      with v(2) k lvs show "rows cat ! i ! k = map (\<lambda>v. Num (binarize v)) vs ! k" by simp
    qed
    with s(1,2) vs lnames show ?thesis by auto
  qed
  have names0: "\<exists>s. rows df ! 0 ! j = Str s \<and>
           names = map (\<lambda>t. hd (str_split (CHR ''-'') t)) (str_split (CHR '';'') s)"
  proof -
    from rne have i0: "0 < length (rows df)" by simp
    from rowi[OF i0] obtain s where
      s: "rows df ! 0 ! j = Str s" "length (str_split (CHR '';'') s) = length names"
      by blast
    let ?ts = "str_split (CHR '';'') s"
    have r0: "row = map Str ?ts"
      using row0 Ei[OF i0] s lnames split_width_bound[OF coli[OF i0]]
      by (simp add: split_row_def Let_def)
    have "names = map (\<lambda>t. hd (str_split (CHR ''-'') t)) ?ts"
    proof (rule nth_equalityI)
      show "length names = length (map (\<lambda>t. hd (str_split (CHR ''-'') t)) ?ts)"
        using s(2) by simp
    next
      fix k assume k: "k < length names"
      from map_err_nth[OF names, of k] k r0 s(2)
      have "split_first (Str (?ts ! k)) = Inr (names ! k)" by simp
      from split_first_Str[OF this] k s(2)
      show "names ! k = map (\<lambda>t. hd (str_split (CHR ''-'') t)) ?ts ! k" by simp
    qed
    with s(1) show ?thesis by blast
  qed
  have dc: "columns (drop_columns ''categories'' df) = drop_at [j] (columns df)"
    and dr: "rows (drop_columns ''categories'' df) = map (drop_at [j]) (rows df)"
    using pj by (simp_all add: drop_columns_def Let_def)
  have cm: "columns mid = drop_at [j] (columns df) @ names"
    using mid dc cc by (simp add: concat_columns_def)
  have lm: "length (rows mid) = length (rows df)"
    using mid dr lcat by (simp add: concat_columns_def)
  have rm: "rows mid ! i = drop_at [j] (rows df ! i) @ rows cat ! i"
    if "i < length (rows df)" for i
    using mid dr lcat that by (simp add: concat_columns_def)
  have all: "\<forall>i<length (rows df).
          \<exists>s vs. rows df ! i ! j = Str s \<and>
                 length (str_split (CHR '';'') s) = length names \<and>
                 map_err to_int (map (\<lambda>t. str_last (Str t)) (str_split (CHR '';'') s)) = Inr vs \<and>
                 rows mid ! i = drop_at [j] (rows df ! i) @ map (\<lambda>v. Num (binarize v)) vs"
  proof (intro allI impI)
    fix i assume i: "i < length (rows df)"
    from rowi[OF i] rm[OF i]
    show "\<exists>s vs. rows df ! i ! j = Str s \<and>
                 length (str_split (CHR '';'') s) = length names \<and>
                 map_err to_int (map (\<lambda>t. str_last (Str t)) (str_split (CHR '';'') s)) = Inr vs \<and>
                 rows mid ! i = drop_at [j] (rows df ! i) @ map (\<lambda>v. Num (binarize v)) vs"
      by auto
  qed
  from lnames col have sw: "split_width (column_at j (rows df)) = length names" by simp
  from pj rne dn sw cm lm names0 all show ?thesis by blast
qed

lemma drop_at_positions: "drop_at (positions name cs) cs = filter (\<lambda>c. c \<noteq> name) cs"
proof -
  have "filter (\<lambda>i. i \<notin> set (positions name cs)) [0..<length cs] =
        filter (\<lambda>i. cs ! i \<noteq> name) [0..<length cs]"
    by (rule filter_cong) (auto simp: positions_mem)
  then have "drop_at (positions name cs) cs =
        map (\<lambda>i. cs ! i) (filter (\<lambda>i. cs ! i \<noteq> name) [0..<length cs])"
    by (simp add: drop_at_def)
  also have "\<dots> = filter (\<lambda>c. c \<noteq> name) (map (\<lambda>i. cs ! i) [0..<length cs])"
    by (simp add: filter_map comp_def)
  also have "\<dots> = filter (\<lambda>c. c \<noteq> name) cs"
    by (simp add: map_nth)
  finally show ?thesis .
qed

lemma expand_categoriesE:
  assumes "expand_categories df = Inr mid"
  obtains j names s0 where
    "positions ''categories'' (columns df) = [j]"
    "rows df \<noteq> []"
    "distinct names"
    "split_width (column_at j (rows df)) = length names"
    "columns mid = drop_at [j] (columns df) @ names"
    "length (rows mid) = length (rows df)"
    "rows df ! 0 ! j = Str s0"
    "names = map (\<lambda>t. hd (str_split (CHR ''-'') t)) (str_split (CHR '';'') s0)"
    "\<forall>i<length (rows df).
          \<exists>s vs. rows df ! i ! j = Str s \<and>
                 length (str_split (CHR '';'') s) = length names \<and>
                 map_err to_int (map (\<lambda>t. str_last (Str t)) (str_split (CHR '';'') s)) = Inr vs \<and>
                 rows mid ! i = drop_at [j] (rows df ! i) @ map (\<lambda>v. Num (binarize v)) vs"
proof -
  from expand_categories_result[OF assms] obtain j names where
    h: "positions ''categories'' (columns df) = [j] \<and>
      rows df \<noteq> [] \<and>
      distinct names \<and>
      split_width (column_at j (rows df)) = length names \<and>
      columns mid = drop_at [j] (columns df) @ names \<and>
      length (rows mid) = length (rows df) \<and>
      (\<exists>s. rows df ! 0 ! j = Str s \<and>
           names = map (\<lambda>t. hd (str_split (CHR ''-'') t)) (str_split (CHR '';'') s)) \<and>
      (\<forall>i<length (rows df).
          \<exists>s vs. rows df ! i ! j = Str s \<and>
                 length (str_split (CHR '';'') s) = length names \<and>
                 map_err to_int (map (\<lambda>t. str_last (Str t)) (str_split (CHR '';'') s)) = Inr vs \<and>
                 rows mid ! i = drop_at [j] (rows df ! i) @ map (\<lambda>v. Num (binarize v)) vs)"
    by (elim exE)
  from h obtain s0 where
    s0: "rows df ! 0 ! j = Str s0"
        "names = map (\<lambda>t. hd (str_split (CHR ''-'') t)) (str_split (CHR '';'') s0)"
    by (elim conjE exE)
  from h s0 show thesis
    by (intro that[of j names s0]) simp_all
qed

lemma clean_data_rows:
  assumes "clean_data df = Inr out"
  shows "\<exists>mid. expand_categories df = Inr mid \<and> columns out = columns mid \<and>
               rows out = keep_first [] (rows mid)"
  using assms
  by (auto simp: clean_data_def drop_duplicates_def split: sum.splits)

lemma keep_first_first_occurrences:
  "keep_first seen xs =
     map (\<lambda>n. xs ! n) (filter (\<lambda>n. xs ! n \<notin> set seen \<union> set (take n xs)) [0..<length xs])"
proof (induction xs rule: rev_induct)
  case Nil
  show ?case by simp
next
  case (snoc x xs)
  let ?P = "\<lambda>n. (xs @ [x]) ! n \<notin> set seen \<union> set (take n (xs @ [x]))"
  let ?Q = "\<lambda>n. xs ! n \<notin> set seen \<union> set (take n xs)"
  have f: "filter ?P [0..<length xs] = filter ?Q [0..<length xs]"
    by (rule filter_cong) (auto simp: nth_append)
  have m: "map (\<lambda>n. (xs @ [x]) ! n) (filter ?Q [0..<length xs]) =
           map (\<lambda>n. xs ! n) (filter ?Q [0..<length xs])"
    by (rule map_cong) (auto simp: nth_append)
  have "map (\<lambda>n. (xs @ [x]) ! n) (filter ?P [0..<length (xs @ [x])]) =
        map (\<lambda>n. xs ! n) (filter ?Q [0..<length xs]) @
        (if x \<in> set seen \<union> set xs then [] else [x])"
    using f m by simp
  with snoc.IH show ?case by (simp add: keep_first_snoc)
qed

lemma drop_at_single:
  assumes "j < length xs"
  shows "drop_at [j] xs = take j xs @ drop (Suc j) xs"
proof -
  have u: "[0..<length xs] = [0..<j] @ j # [Suc j..<length xs]"
    using assms by (metis le_add_diff_inverse less_imp_le_nat upt_add_eq_append upt_conv_Cons zero_le)
  have a: "filter (\<lambda>i. i \<noteq> j) [0..<j] = [0..<j]" by (rule filter_True) simp
  have b: "filter (\<lambda>i. i \<noteq> j) [Suc j..<length xs] = [Suc j..<length xs]"
    by (rule filter_True) simp
  have "drop_at [j] xs = map (\<lambda>i. xs ! i) ([0..<j] @ [Suc j..<length xs])"
    unfolding drop_at_def by (subst u) (simp add: a b)
  also have "\<dots> = take j xs @ drop (Suc j) xs"
    using assms by (auto intro!: nth_equalityI simp: nth_append)
  finally show ?thesis .
qed

lemma count_list_distinct:
  "distinct xs \<Longrightarrow> x \<in> set xs \<Longrightarrow> count_list xs x = 1"
  by (induction xs) auto

lemma expand_rows_functional:
  assumes "expand_categories df = Inr mid"
    and "i < length (rows df)" and "i' < length (rows df)"
    and "rows df ! i = rows df ! i'"
  shows "rows mid ! i = rows mid ! i'"
proof -
  from assms(1) obtain j names s0 where
    pj: "positions ''categories'' (columns df) = [j]" and
    rne: "rows df \<noteq> []" and
    dn: "distinct names" and
    sw: "split_width (column_at j (rows df)) = length names" and
    cm: "columns mid = drop_at [j] (columns df) @ names" and
    lm: "length (rows mid) = length (rows df)" and
    s0: "rows df ! 0 ! j = Str s0" and
    nm: "names = map (\<lambda>t. hd (str_split (CHR ''-'') t)) (str_split (CHR '';'') s0)" and
    all0: "\<forall>i<length (rows df).
          \<exists>s vs. rows df ! i ! j = Str s \<and>
                 length (str_split (CHR '';'') s) = length names \<and>
                 map_err to_int (map (\<lambda>t. str_last (Str t)) (str_split (CHR '';'') s)) = Inr vs \<and>
                 rows mid ! i = drop_at [j] (rows df ! i) @ map (\<lambda>v. Num (binarize v)) vs"
    by (rule expand_categoriesE)
  from all0 assms(2) obtain s vs where
    a: "rows df ! i ! j = Str s"
       "map_err to_int (map (\<lambda>t. str_last (Str t)) (str_split (CHR '';'') s)) = Inr vs"
       "rows mid ! i = drop_at [j] (rows df ! i) @ map (\<lambda>v. Num (binarize v)) vs"
    by blast
  from all0 assms(3) obtain s' vs' where
    b: "rows df ! i' ! j = Str s'"
       "map_err to_int (map (\<lambda>t. str_last (Str t)) (str_split (CHR '';'') s')) = Inr vs'"
       "rows mid ! i' = drop_at [j] (rows df ! i') @ map (\<lambda>v. Num (binarize v)) vs'"
    by blast
  from a(1) b(1) assms(4) have "s = s'" by simp
  with a(2) b(2) have "vs = vs'" by simp
  with a(3) b(3) assms(4) show ?thesis by simp
qed

lemma str_split_single_empty: "str_split sep s = [[]] \<longleftrightarrow> s = []"
  by (cases s) (auto split: list.splits simp: str_split_nonempty)

lemma str_split_last_last:
  "last (str_split sep s) \<noteq> [] \<Longrightarrow> last (last (str_split sep s)) = last s"
proof (induction s)
  case Nil
  then show ?case by simp
next
  case (Cons c cs)
  show ?case
  proof (cases "cs = []")
    case True
    with Cons.prems show ?thesis by (auto split: if_splits)
  next
    case False
    obtain p ps where pp: "str_split sep cs = p # ps"
      using str_split_nonempty[of sep cs] by (cases "str_split sep cs") auto
    show ?thesis
    proof (cases "c = sep")
      case True
      with Cons pp False show ?thesis by simp
    next
      case ne: False
      show ?thesis
      proof (cases ps)
        case Nil
        with pp False have "p \<noteq> []" using str_split_single_empty[of sep cs] by auto
        with Cons pp Nil ne False show ?thesis by simp
      next
        case (Cons q qs)
        with Cons.IH Cons.prems pp ne False show ?thesis by simp
      qed
    qed
  qed
qed

lemma char_after_last_dash_single:
  assumes "CHR ''-'' \<in> set t" and "length (last (str_split (CHR ''-'') t)) = 1"
  shows "char_after_last_dash t = Some (last t)"
proof -
  from assms(2) obtain c where c: "last (str_split (CHR ''-'') t) = [c]"
    by (cases "last (str_split (CHR ''-'') t)") auto
  with str_split_last_last[of "CHR ''-''" t] have "last t = c" by simp
  with c assms(1) show ?thesis by (simp add: char_after_last_dash_def)
qed

section \<open>Joining on the key\<close>






lemma positions_single_nth:
  assumes "positions name cs = [i]"
  shows "i < length cs" and "cs ! i = name" and "\<And>p. p < length cs \<Longrightarrow> cs ! p = name \<Longrightarrow> p = i"
proof -
  have "i \<in> set (positions name cs)" using assms by simp
  then show "i < length cs" "cs ! i = name" by (simp_all add: positions_mem)
  fix p assume "p < length cs" "cs ! p = name"
  then have "p \<in> set (positions name cs)" by (simp add: positions_mem)
  with assms show "p = i" by simp
qed






text \<open>Integer identifiers against text identifiers: \<^verbatim>\<open>pd.merge\<close> raises.\<close>

lemma load_data_key_types:
  "load_data
     (\<lambda>p. if p = ''messages.csv''
          then Inr \<lparr>columns = [''id'', ''message''], rows = [[Num 1, Str ''flood'']]\<rparr>
          else Inr \<lparr>columns = [''id'', ''categories''],
                    rows = [[Str ''a'', Str ''related-1'']]\<rparr>)
     ''messages.csv'' ''categories.csv'' = Inl ValueError"
  by code_simp

section \<open>Writing a table\<close>



text \<open>Without the drop the table cannot be created, and an insert alone appends.\<close>

lemma create_table_exists:
  "has_table db name \<Longrightarrow> create_table name cs db = Inl StorageError"
  by (simp add: create_table_def)

lemma insert_rows_appends:
  assumes "db (table_key name) = Some t" and "list_all (list_all storable) rs"
  shows "insert_rows name rs db = Inr (db(table_key name \<mapsto> t\<lparr>rows := rows t @ rs\<rparr>))"
  using assms by (simp add: insert_rows_def)


lemma save_data_in_memory:
  assumes "in_memory f" and "save_data df f st = Inr st'"
  shows "st' = st \<and> read_table st' f name = None"
  using assms by (auto simp: save_data_def read_table_def split: sum.splits)

section \<open>Failures of the cleaner\<close>

text \<open>Cleaning a cleaned frame again never returns a frame.\<close>

lemma keep_first_nonempty: "xs \<noteq> [] \<Longrightarrow> set xs \<inter> set seen = {} \<Longrightarrow> keep_first seen xs \<noteq> []"
  by (cases xs) auto

lemma clean_data_again:
  assumes c: "clean_data df0 = Inr df" and wf: "wf_frame df0"
  shows "clean_data df = Inl KeyError \<or> clean_data df = Inl AttributeError"
proof (cases "''categories'' \<in> set (columns df)")
  case False
  then have "positions ''categories'' (columns df) = []" by (simp add: positions_empty_iff)
  then show ?thesis
    by (simp add: clean_data_def expand_categories_def str_accessor_def)
next
  case True
  from clean_data_rows[OF c] obtain mid where
    mid: "expand_categories df0 = Inr mid" and co: "columns df = columns mid" and
    ro: "rows df = keep_first [] (rows mid)"
    by blast
  from mid obtain j names s0 where
    pj: "positions ''categories'' (columns df0) = [j]" and
    rne: "rows df0 \<noteq> []" and
    dn: "distinct names" and
    sw: "split_width (column_at j (rows df0)) = length names" and
    cm: "columns mid = drop_at [j] (columns df0) @ names" and
    lm: "length (rows mid) = length (rows df0)" and
    s0: "rows df0 ! 0 ! j = Str s0" and
    nm: "names = map (\<lambda>t. hd (str_split (CHR ''-'') t)) (str_split (CHR '';'') s0)" and
    all0: "\<forall>i<length (rows df0).
          \<exists>s vs. rows df0 ! i ! j = Str s \<and>
                 length (str_split (CHR '';'') s) = length names \<and>
                 map_err to_int (map (\<lambda>t. str_last (Str t)) (str_split (CHR '';'') s)) = Inr vs \<and>
                 rows mid ! i = drop_at [j] (rows df0 ! i) @ map (\<lambda>v. Num (binarize v)) vs"
    by (rule expand_categoriesE)
  have jl: "j < length (columns df0)"
    using positions_single_nth(1)[OF pj] .
  let ?others = "filter (\<lambda>c. c \<noteq> ''categories'') (columns df0)"
  have cols: "columns df = ?others @ names"
    using co cm drop_at_positions[of "''categories''" "columns df0"] pj by simp
  have "?others = take j (columns df0) @ drop (Suc j) (columns df0)"
    using drop_at_positions[of "''categories''" "columns df0"] pj drop_at_single[OF jl]
    by simp
  then have "length ?others = length (take j (columns df0) @ drop (Suc j) (columns df0))"
    by (rule arg_cong)
  with jl have lo: "length ?others = length (columns df0) - 1" by simp
  show ?thesis
  proof (cases "positions ''categories'' (columns df)")
    case Nil
    then show ?thesis
      by (simp add: clean_data_def expand_categories_def str_accessor_def)
  next
    case (Cons p ps)
    show ?thesis
    proof (cases ps)
      case (Cons q qs)
      with \<open>positions ''categories'' (columns df) = p # ps\<close> show ?thesis
        by (simp add: clean_data_def expand_categories_def str_accessor_def)
    next
      case Nil
      with Cons have pp: "positions ''categories'' (columns df) = [p]" by simp
      note p = positions_single_nth[OF pp]
      have pge: "length ?others \<le> p"
      proof (rule ccontr)
        assume "\<not> length ?others \<le> p"
        then have lt: "p < length ?others" by simp
        with p(2) cols have "?others ! p = ''categories''" by (simp add: nth_append)
        moreover from nth_mem[OF lt] have "?others ! p \<noteq> ''categories''" by simp
        ultimately show False by simp
      qed
      from p(1) cols have plt: "p - length ?others < length names" using pge by simp
      from lm rne have "rows mid \<noteq> []" by auto
      then have "keep_first [] (rows mid) \<noteq> []" by (rule keep_first_nonempty) simp
      with ro have rdne: "rows df \<noteq> []" by simp
      have nums: "\<not> is_Str (r ! p)" if "r \<in> set (rows df)" for r
      proof -
        from that ro have "r \<in> set (rows mid)" by (simp add: keep_first_set)
        then obtain i where i: "i < length (rows df0)" "r = rows mid ! i"
          using lm by (auto simp: in_set_conv_nth)
        from all0 i(1) obtain s vs where
          a: "length (str_split (CHR '';'') s) = length names"
             "map_err to_int (map (\<lambda>t. str_last (Str t)) (str_split (CHR '';'') s)) = Inr vs"
             "rows mid ! i = drop_at [j] (rows df0 ! i) @ map (\<lambda>v. Num (binarize v)) vs"
          by blast
        from wf i(1) have li: "length (rows df0 ! i) = length (columns df0)"
          by (simp add: wf_frame_def list_all_length)
        with jl have "j < length (rows df0 ! i)" by simp
        from drop_at_single[OF this] li jl
        have ld: "length (drop_at [j] (rows df0 ! i)) = length (columns df0) - 1" by simp
        from map_err_length[OF a(2)] a(1) have lv: "length vs = length names" by simp
        from a(3) i(2) ld lo pge plt lv
        have "r ! p = Num (binarize (vs ! (p - length ?others)))"
          by (simp add: nth_append)
        then show ?thesis by (simp add: is_Str_def)
      qed
      have "column_at p (rows df) \<noteq> []" using rdne by (simp add: column_at_def)
      moreover have "\<not> list_ex is_Str (column_at p (rows df))"
        using nums by (auto simp: list_ex_iff column_at_def)
      ultimately have "str_accessor df ''categories'' = Inl AttributeError"
        using pp by (simp add: str_accessor_def Let_def)
      then show ?thesis by (simp add: clean_data_def expand_categories_def)
    qed
  qed
qed

text \<open>
  Claim C9. On a frame without a \<^verbatim>\<open>categories\<close> column \<^verbatim>\<open>clean_data\<close> does not
  return a frame: the lookup \<^verbatim>\<open>df["categories"]\<close> of line 28 raises
  \<^verbatim>\<open>KeyError\<close>, which nothing catches. A frame that \<^verbatim>\<open>clean_data\<close> has returned
  for a well-formed input is such a frame, unless a category is itself named
  \<^verbatim>\<open>categories\<close>; its column then holds integers and \<^verbatim>\<open>.str\<close> raises
  \<^verbatim>\<open>AttributeError\<close>. So cleaning cleaned output always fails with one of the two.
\<close>

theorem clean_data_without_categories:
  "(''categories'' \<notin> set (columns df) \<longrightarrow> clean_data df = Inl KeyError) \<and>
   (wf_frame df0 \<and> clean_data df0 = Inr df \<longrightarrow>
      clean_data df = Inl KeyError \<or> clean_data df = Inl AttributeError)"
proof (intro conjI impI)
  assume "''categories'' \<notin> set (columns df)"
  then show "clean_data df = Inl KeyError"
    by (simp add: clean_data_def expand_categories_def str_accessor_def
        positions_empty_iff[THEN iffD2])
next
  assume "wf_frame df0 \<and> clean_data df0 = Inr df"
  then show "clean_data df = Inl KeyError \<or> clean_data df = Inl AttributeError"
    using clean_data_again by blast
qed

theorem clean_data_without_categories_witness:
  "wf_frame \<lparr>columns = [''id'', ''message'', ''categories''],
             rows = [[Num 1, Str ''flood'', Str ''related-1'']]\<rparr> \<and>
   clean_data \<lparr>columns = [''id'', ''message'', ''categories''],
               rows = [[Num 1, Str ''flood'', Str ''related-1'']]\<rparr> =
     Inr \<lparr>columns = [''id'', ''message'', ''related''],
          rows = [[Num 1, Str ''flood'', Num 1]]\<rparr> \<and>
   ''categories'' \<notin> set (columns \<lparr>columns = [''id'', ''message'', ''related''],
                                      rows = [[Num 1, Str ''flood'', Num 1]]\<rparr>) \<and>
   clean_data \<lparr>columns = [''id'', ''message'', ''related''],
               rows = [[Num 1, Str ''flood'', Num 1]]\<rparr> = Inl KeyError"
proof -
  have c: "clean_data \<lparr>columns = [''id'', ''message'', ''categories''],
               rows = [[Num 1, Str ''flood'', Str ''related-1'']]\<rparr> =
     Inr \<lparr>columns = [''id'', ''message'', ''related''],
          rows = [[Num 1, Str ''flood'', Num 1]]\<rparr>"
    by code_simp
  have w: "wf_frame \<lparr>columns = [''id'', ''message'', ''categories''],
             rows = [[Num 1, Str ''flood'', Str ''related-1'']]\<rparr>"
    by (simp add: wf_frame_def)
  from clean_data_without_categories
    [of "\<lparr>columns = [''id'', ''message'', ''related''],
          rows = [[Num 1, Str ''flood'', Num 1]]\<rparr>"] c w
  show ?thesis by simp
qed

text \<open>
  Claim C10. On a frame that has a \<^verbatim>\<open>categories\<close> column and no row,
  \<^verbatim>\<open>clean_data\<close> raises instead of returning an empty frame: the split of line 28
  yields a frame without rows, and \<^verbatim>\<open>categories.loc[0, :]\<close> of line 31 raises
  \<^verbatim>\<open>KeyError\<close>. (When several columns carry the label, line 28 itself raises.)
\<close>

theorem clean_data_no_rows:
  assumes "''categories'' \<in> set (columns df)" and "rows df = []"
  shows "(\<exists>e. clean_data df = Inl e) \<and>
         (distinct (columns df) \<longrightarrow> clean_data df = Inl KeyError)"
proof -
  have ne: "positions ''categories'' (columns df) \<noteq> []"
    using assms(1) by (simp add: positions_empty_iff)
  have a: "\<exists>e. clean_data df = Inl e"
    using ne assms(2)
    by (auto simp: clean_data_def expand_categories_def str_accessor_def column_at_def
        str_split_expand_Nil loc0_def split: list.splits)
  have b: "clean_data df = Inl KeyError" if "distinct (columns df)"
  proof -
    from positions_single_distinct[OF that assms(1)] obtain j
      where "positions ''categories'' (columns df) = [j]" ..
    then show ?thesis
      using assms(2)
      by (simp add: clean_data_def expand_categories_def str_accessor_def column_at_def
          str_split_expand_Nil loc0_def)
  qed
  from a b show ?thesis by blast
qed

theorem clean_data_no_rows_witness:
  "''categories'' \<in> set (columns \<lparr>columns = [''id'', ''message'', ''categories''], rows = []\<rparr>) \<and>
   rows \<lparr>columns = [''id'', ''message'', ''categories''], rows = []\<rparr> = [] \<and>
   distinct (columns \<lparr>columns = [''id'', ''message'', ''categories''], rows = []\<rparr>) \<and>
   clean_data \<lparr>columns = [''id'', ''message'', ''categories''], rows = []\<rparr> = Inl KeyError"
  using clean_data_no_rows
    [of "\<lparr>columns = [''id'', ''message'', ''categories''], rows = []\<rparr>"]
  by simp

section \<open>The writer replaces\<close>




section \<open>Wrong argument count\<close>

text \<open>
  Claim C8. When the number of positional arguments (the arguments after the program
  name in \<^verbatim>\<open>sys.argv\<close>) is not 3, \<^verbatim>\<open>main\<close> prints the usage message to standard
  output and returns: no exception escapes, so the exit status is 0, nothing else is
  printed, and the store is as it was, no load, clean or save having run.
\<close>

theorem main_usage:
  assumes "length (tl argv) \<noteq> 3"
  shows "main argv w = (None, w\<lparr>stdout := stdout w @ [usage_message]\<rparr>) \<and>
         exit_status (fst (main argv w)) = 0 \<and>
         store (snd (main argv w)) = store w"
  using assms
  by (auto simp: main_def print_def exit_status_def split: list.splits)

theorem main_usage_witness:
  "length (tl [''process_data.py'', ''disaster_messages.csv'']) \<noteq> 3 \<and>
   main [''process_data.py'', ''disaster_messages.csv'']
     \<lparr>files = (\<lambda>_. Inl FileError), store = (\<lambda>_. Database Map.empty), stdout = []\<rparr> =
   (None, \<lparr>files = (\<lambda>_. Inl FileError), store = (\<lambda>_. Database Map.empty),
           stdout = [usage_message]\<rparr>)"
  using main_usage
    [of "[''process_data.py'', ''disaster_messages.csv'']"
        "\<lparr>files = (\<lambda>_. Inl FileError), store = (\<lambda>_. Database Map.empty), stdout = []\<rparr>"]
  by simp

section \<open>The new column headers\<close>

text \<open>
  Claim C3. When \<^verbatim>\<open>clean_data\<close> returns a frame, the input has exactly one
  \<^verbatim>\<open>categories\<close> column and at least one row, the \<^verbatim>\<open>categories\<close> value of row 0
  is a string, and the column labels of the result are the labels of the input without
  \<^verbatim>\<open>categories\<close>, in their order, followed by the new headers: for each piece of
  row 0's value split on \<^verbatim>\<open>;\<close>, in order, the first piece of its split on \<^verbatim>\<open>-\<close>.
  No other row contributes to the headers. The new headers stand after the remaining
  columns, not at the place the packed column had.
\<close>

theorem clean_data_headers:
  assumes "clean_data df = Inr out"
  shows "\<exists>j s. positions ''categories'' (columns df) = [j] \<and> rows df \<noteq> [] \<and>
               rows df ! 0 ! j = Str s \<and>
               columns out =
                 filter (\<lambda>c. c \<noteq> ''categories'') (columns df) @
                 map (\<lambda>t. hd (str_split (CHR ''-'') t)) (str_split (CHR '';'') s)"
proof -
  from clean_data_rows[OF assms] obtain mid where
    mid: "expand_categories df = Inr mid" and c: "columns out = columns mid"
    by blast
  from mid obtain j names s0 where
    pj: "positions ''categories'' (columns df) = [j]" and
    rne: "rows df \<noteq> []" and
    dn: "distinct names" and
    sw: "split_width (column_at j (rows df)) = length names" and
    cm: "columns mid = drop_at [j] (columns df) @ names" and
    lm: "length (rows mid) = length (rows df)" and
    s0: "rows df ! 0 ! j = Str s0" and
    nm: "names = map (\<lambda>t. hd (str_split (CHR ''-'') t)) (str_split (CHR '';'') s0)" and
    all0: "\<forall>i<length (rows df).
          \<exists>s vs. rows df ! i ! j = Str s \<and>
                 length (str_split (CHR '';'') s) = length names \<and>
                 map_err to_int (map (\<lambda>t. str_last (Str t)) (str_split (CHR '';'') s)) = Inr vs \<and>
                 rows mid ! i = drop_at [j] (rows df ! i) @ map (\<lambda>v. Num (binarize v)) vs"
    by (rule expand_categoriesE)
  from all0 have all: "\<And>i. i < length (rows df) \<Longrightarrow>
          \<exists>s vs. rows df ! i ! j = Str s \<and>
                 length (str_split (CHR '';'') s) = length names \<and>
                 map_err to_int (map (\<lambda>t. str_last (Str t)) (str_split (CHR '';'') s)) = Inr vs \<and>
                 rows mid ! i = drop_at [j] (rows df ! i) @ map (\<lambda>v. Num (binarize v)) vs"
    by blast
  from drop_at_positions[of "''categories''" "columns df"] pj
  have "drop_at [j] (columns df) = filter (\<lambda>c. c \<noteq> ''categories'') (columns df)"
    by simp
  with c cm s0 nm pj rne show ?thesis by auto
qed

theorem clean_data_headers_witness:
  "clean_data \<lparr>columns = [''id'', ''categories'', ''message''],
               rows = [[Num 1, Str ''related-1;request-0'', Str ''flood''],
                       [Num 2, Str ''x-0;y-1'', Str ''fire'']]\<rparr> =
   Inr \<lparr>columns = [''id'', ''message'', ''related'', ''request''],
        rows = [[Num 1, Str ''flood'', Num 1, Num 0],
                [Num 2, Str ''fire'', Num 0, Num 1]]\<rparr> \<and>
   (\<exists>j s. positions ''categories'' [''id'', ''categories'', ''message''] = [j] \<and>
          [[Num 1, Str ''related-1;request-0'', Str ''flood''],
           [Num 2, Str ''x-0;y-1'', Str ''fire'']] ! 0 ! j = Str s \<and>
          [''id'', ''message'', ''related'', ''request''] =
            filter (\<lambda>c. c \<noteq> ''categories'') [''id'', ''categories'', ''message''] @
            map (\<lambda>t. hd (str_split (CHR ''-'') t)) (str_split (CHR '';'') s))"
proof -
  have h: "clean_data \<lparr>columns = [''id'', ''categories'', ''message''],
               rows = [[Num 1, Str ''related-1;request-0'', Str ''flood''],
                       [Num 2, Str ''x-0;y-1'', Str ''fire'']]\<rparr> =
   Inr \<lparr>columns = [''id'', ''message'', ''related'', ''request''],
        rows = [[Num 1, Str ''flood'', Num 1, Num 0],
                [Num 2, Str ''fire'', Num 0, Num 1]]\<rparr>"
    by code_simp
  from clean_data_headers[OF h] h show ?thesis by simp
qed

section \<open>Normalisation of the values\<close>

text \<open>
  Claim C1. When \<^verbatim>\<open>clean_data\<close> returns a frame, every row of it comes from a row
  of the input whose \<^verbatim>\<open>categories\<close> value is a string \<open>s\<close>: it is that row
  without the \<^verbatim>\<open>categories\<close> cell, followed by one integer per piece of \<open>s\<close>. With
  \<open>vs\<close> the integers that \<^verbatim>\<open>.str[-1].astype(int)\<close> extracts from the pieces, the
  cell for an extracted \<open>v\<close> is 1 when \<open>v\<close> is 2 and \<open>v\<close> otherwise. A row whose
  value is \<^verbatim>\<open>related-1;request-0;offer-2\<close> yields the cells 1, 0, 1, and the frame
  with that single row is cleaned to the columns \<^verbatim>\<open>related = 1\<close>,
  \<^verbatim>\<open>request = 0\<close>, \<^verbatim>\<open>offer = 1\<close>.
\<close>

theorem clean_data_values:
  assumes "clean_data df = Inr out"
  shows "(\<exists>j. positions ''categories'' (columns df) = [j] \<and>
           (\<forall>r\<in>set (rows out).
               \<exists>i s vs. i < length (rows df) \<and> rows df ! i ! j = Str s \<and>
                 map_err to_int (map (\<lambda>t. str_last (Str t)) (str_split (CHR '';'') s)) = Inr vs \<and>
                 r = drop_at [j] (rows df ! i) @ map (\<lambda>v. Num (if v = 2 then 1 else v)) vs) \<and>
           (\<forall>i<length (rows df).
               rows df ! i ! j = Str ''related-1;request-0;offer-2'' \<longrightarrow>
               drop_at [j] (rows df ! i) @ [Num 1, Num 0, Num 1] \<in> set (rows out))) \<and>
         clean_data \<lparr>columns = [''id'', ''message'', ''categories''],
                     rows = [[Num 1, Str ''flood'', Str ''related-1;request-0;offer-2'']]\<rparr> =
         Inr \<lparr>columns = [''id'', ''message'', ''related'', ''request'', ''offer''],
              rows = [[Num 1, Str ''flood'', Num 1, Num 0, Num 1]]\<rparr>"
proof -
  from clean_data_rows[OF assms] obtain mid where
    mid: "expand_categories df = Inr mid" and ro: "rows out = keep_first [] (rows mid)"
    by blast
  from mid obtain j names s0 where
    pj: "positions ''categories'' (columns df) = [j]" and
    rne: "rows df \<noteq> []" and
    dn: "distinct names" and
    sw: "split_width (column_at j (rows df)) = length names" and
    cm: "columns mid = drop_at [j] (columns df) @ names" and
    lm: "length (rows mid) = length (rows df)" and
    s0: "rows df ! 0 ! j = Str s0" and
    nm: "names = map (\<lambda>t. hd (str_split (CHR ''-'') t)) (str_split (CHR '';'') s0)" and
    all0: "\<forall>i<length (rows df).
          \<exists>s vs. rows df ! i ! j = Str s \<and>
                 length (str_split (CHR '';'') s) = length names \<and>
                 map_err to_int (map (\<lambda>t. str_last (Str t)) (str_split (CHR '';'') s)) = Inr vs \<and>
                 rows mid ! i = drop_at [j] (rows df ! i) @ map (\<lambda>v. Num (binarize v)) vs"
    by (rule expand_categoriesE)
  from all0 have all: "\<And>i. i < length (rows df) \<Longrightarrow>
          \<exists>s vs. rows df ! i ! j = Str s \<and>
                 length (str_split (CHR '';'') s) = length names \<and>
                 map_err to_int (map (\<lambda>t. str_last (Str t)) (str_split (CHR '';'') s)) = Inr vs \<and>
                 rows mid ! i = drop_at [j] (rows df ! i) @ map (\<lambda>v. Num (binarize v)) vs"
    by blast
  have so: "set (rows out) = set (rows mid)"
    using ro by (simp add: keep_first_set)
  have a: "\<forall>r\<in>set (rows out).
               \<exists>i s vs. i < length (rows df) \<and> rows df ! i ! j = Str s \<and>
                 map_err to_int (map (\<lambda>t. str_last (Str t)) (str_split (CHR '';'') s)) = Inr vs \<and>
                 r = drop_at [j] (rows df ! i) @ map (\<lambda>v. Num (if v = 2 then 1 else v)) vs"
  proof
    fix r assume "r \<in> set (rows out)"
    with so lm obtain i where i: "i < length (rows df)" "r = rows mid ! i"
      by (auto simp: in_set_conv_nth)
    from all[OF i(1)] obtain s vs where
      "rows df ! i ! j = Str s"
      "map_err to_int (map (\<lambda>t. str_last (Str t)) (str_split (CHR '';'') s)) = Inr vs"
      "rows mid ! i = drop_at [j] (rows df ! i) @ map (\<lambda>v. Num (binarize v)) vs"
      by blast
    with i show "\<exists>i s vs. i < length (rows df) \<and> rows df ! i ! j = Str s \<and>
                 map_err to_int (map (\<lambda>t. str_last (Str t)) (str_split (CHR '';'') s)) = Inr vs \<and>
                 r = drop_at [j] (rows df ! i) @ map (\<lambda>v. Num (if v = 2 then 1 else v)) vs"
      unfolding binarize_def by blast
  qed
  have ex: "map_err to_int (map (\<lambda>t. str_last (Str t))
              (str_split (CHR '';'') ''related-1;request-0;offer-2'')) = Inr [1, 0, 2]"
    by code_simp
  have b: "\<forall>i<length (rows df).
               rows df ! i ! j = Str ''related-1;request-0;offer-2'' \<longrightarrow>
               drop_at [j] (rows df ! i) @ [Num 1, Num 0, Num 1] \<in> set (rows out)"
  proof (intro allI impI)
    fix i assume i: "i < length (rows df)"
      and v: "rows df ! i ! j = Str ''related-1;request-0;offer-2''"
    from all[OF i] obtain s vs where
      s: "rows df ! i ! j = Str s"
      "map_err to_int (map (\<lambda>t. str_last (Str t)) (str_split (CHR '';'') s)) = Inr vs"
      "rows mid ! i = drop_at [j] (rows df ! i) @ map (\<lambda>v. Num (binarize v)) vs"
      by blast
    from s(1) v have "s = ''related-1;request-0;offer-2''" by simp
    with s(2) ex have "vs = [1, 0, 2]" by simp
    with s(3) have "rows mid ! i = drop_at [j] (rows df ! i) @ [Num 1, Num 0, Num 1]"
      by (simp add: binarize_def)
    moreover have "rows mid ! i \<in> set (rows mid)" using i lm by simp
    ultimately show "drop_at [j] (rows df ! i) @ [Num 1, Num 0, Num 1] \<in> set (rows out)"
      using so by simp
  qed
  have c: "clean_data \<lparr>columns = [''id'', ''message'', ''categories''],
                     rows = [[Num 1, Str ''flood'', Str ''related-1;request-0;offer-2'']]\<rparr> =
         Inr \<lparr>columns = [''id'', ''message'', ''related'', ''request'', ''offer''],
              rows = [[Num 1, Str ''flood'', Num 1, Num 0, Num 1]]\<rparr>"
    by code_simp
  from pj a b c show ?thesis by blast
qed

theorem clean_data_values_witness:
  "clean_data \<lparr>columns = [''id'', ''categories''],
               rows = [[Num 7, Str ''related-2;request-0;offer-5'']]\<rparr> =
   Inr \<lparr>columns = [''id'', ''related'', ''request'', ''offer''],
        rows = [[Num 7, Num 1, Num 0, Num 5]]\<rparr> \<and>
   (\<exists>j. positions ''categories'' [''id'', ''categories''] = [j] \<and>
        (\<exists>i s vs. i < length [[Num 7, Str ''related-2;request-0;offer-5'']] \<and>
           [[Num 7, Str ''related-2;request-0;offer-5'']] ! i ! j = Str s \<and>
           map_err to_int (map (\<lambda>t. str_last (Str t)) (str_split (CHR '';'') s)) = Inr vs \<and>
           [Num 7, Num 1, Num 0, Num 5] =
             drop_at [j] ([[Num 7, Str ''related-2;request-0;offer-5'']] ! i) @
             map (\<lambda>v. Num (if v = 2 then 1 else v)) vs))"
proof -
  have h: "clean_data \<lparr>columns = [''id'', ''categories''],
               rows = [[Num 7, Str ''related-2;request-0;offer-5'']]\<rparr> =
   Inr \<lparr>columns = [''id'', ''related'', ''request'', ''offer''],
        rows = [[Num 7, Num 1, Num 0, Num 5]]\<rparr>"
    by code_simp
  from clean_data_values[OF h] h show ?thesis by simp blast
qed

section \<open>Duplicate rows\<close>

text \<open>
  Claim C5. \<^verbatim>\<open>clean_data\<close> drops duplicates from the frame it has built (categories
  expanded and normalised, \<open>mid\<close> below): the rows of the result are the rows of
  \<open>mid\<close> that are equal, in every column, to no earlier row of \<open>mid\<close>, in the
  order they have in \<open>mid\<close>. So the first occurrence of a row stays, no row occurs
  twice, no row is lost altogether, and the order of the remaining rows is kept. Two
  rows of the input that are equal in every column give equal rows of \<open>mid\<close>, which
  the result holds exactly once; an input of two equal rows is cleaned to one row.
\<close>

theorem clean_data_drops_duplicates:
  assumes "clean_data df = Inr out"
  shows "\<exists>mid. expand_categories df = Inr mid \<and> columns out = columns mid \<and>
           rows out =
             map (\<lambda>n. rows mid ! n)
               (filter (\<lambda>n. rows mid ! n \<notin> set (take n (rows mid))) [0..<length (rows mid)]) \<and>
           distinct (rows out) \<and> set (rows out) = set (rows mid) \<and>
           subseq (rows out) (rows mid) \<and>
           (\<forall>i<length (rows df). \<forall>i'<length (rows df).
               rows df ! i = rows df ! i' \<longrightarrow>
               rows mid ! i = rows mid ! i' \<and> count_list (rows out) (rows mid ! i) = 1) \<and>
           (\<forall>r. rows df = [r, r] \<longrightarrow> length (rows out) = 1)"
proof -
  from clean_data_rows[OF assms] obtain mid where
    mid: "expand_categories df = Inr mid" and c: "columns out = columns mid" and
    ro: "rows out = keep_first [] (rows mid)"
    by blast
  from mid obtain j names s0 where
    pj: "positions ''categories'' (columns df) = [j]" and
    rne: "rows df \<noteq> []" and
    dn: "distinct names" and
    sw: "split_width (column_at j (rows df)) = length names" and
    cm: "columns mid = drop_at [j] (columns df) @ names" and
    lm: "length (rows mid) = length (rows df)" and
    s0: "rows df ! 0 ! j = Str s0" and
    nm: "names = map (\<lambda>t. hd (str_split (CHR ''-'') t)) (str_split (CHR '';'') s0)" and
    all0: "\<forall>i<length (rows df).
          \<exists>s vs. rows df ! i ! j = Str s \<and>
                 length (str_split (CHR '';'') s) = length names \<and>
                 map_err to_int (map (\<lambda>t. str_last (Str t)) (str_split (CHR '';'') s)) = Inr vs \<and>
                 rows mid ! i = drop_at [j] (rows df ! i) @ map (\<lambda>v. Num (binarize v)) vs"
    by (rule expand_categoriesE)
  have first: "rows out =
             map (\<lambda>n. rows mid ! n)
               (filter (\<lambda>n. rows mid ! n \<notin> set (take n (rows mid))) [0..<length (rows mid)])"
    using keep_first_first_occurrences[of "[]" "rows mid"] ro by simp
  have d: "distinct (rows out)" using ro by (simp add: keep_first_distinct)
  have s: "set (rows out) = set (rows mid)" using ro by (simp add: keep_first_set)
  have sub: "subseq (rows out) (rows mid)" using ro by (simp add: keep_first_subseq)
  have dup: "\<forall>i<length (rows df). \<forall>i'<length (rows df).
               rows df ! i = rows df ! i' \<longrightarrow>
               rows mid ! i = rows mid ! i' \<and> count_list (rows out) (rows mid ! i) = 1"
  proof (intro allI impI)
    fix i i' assume i: "i < length (rows df)" and i': "i' < length (rows df)"
      and e: "rows df ! i = rows df ! i'"
    have "rows mid ! i \<in> set (rows out)" using s i lm by simp
    with d have "count_list (rows out) (rows mid ! i) = 1"
      by (simp add: count_list_distinct)
    with expand_rows_functional[OF mid i i' e]
    show "rows mid ! i = rows mid ! i' \<and> count_list (rows out) (rows mid ! i) = 1" by simp
  qed
  have two: "\<forall>r. rows df = [r, r] \<longrightarrow> length (rows out) = 1"
  proof (intro allI impI)
    fix r assume r: "rows df = [r, r]"
    then have "rows df ! 0 = rows df ! 1" "0 < length (rows df)" "1 < length (rows df)"
      by simp_all
    with expand_rows_functional[OF mid, of 0 1] have e: "rows mid ! 0 = rows mid ! 1" by simp
    from lm r have "length (rows mid) = 2" by simp
    then obtain a b where ab: "rows mid = [a, b]"
      by (cases "rows mid"; cases "tl (rows mid)"; cases "tl (tl (rows mid))") auto
    with e have "rows mid = [a, a]" by simp
    with ro show "length (rows out) = 1" by simp
  qed
  from mid c first d s sub dup two show ?thesis by blast
qed

theorem clean_data_drops_duplicates_witness:
  "clean_data \<lparr>columns = [''id'', ''categories''],
               rows = [[Num 1, Str ''a-1;b-0''], [Num 1, Str ''a-1;b-0'']]\<rparr> =
   Inr \<lparr>columns = [''id'', ''a'', ''b''], rows = [[Num 1, Num 1, Num 0]]\<rparr> \<and>
   distinct (rows \<lparr>columns = [''id'', ''a'', ''b''], rows = [[Num 1, Num 1, Num 0]]\<rparr>) \<and>
   length (rows \<lparr>columns = [''id'', ''a'', ''b''], rows = [[Num 1, Num 1, Num 0]]\<rparr>) = 1"
proof -
  have h: "clean_data \<lparr>columns = [''id'', ''categories''],
               rows = [[Num 1, Str ''a-1;b-0''], [Num 1, Str ''a-1;b-0'']]\<rparr> =
   Inr \<lparr>columns = [''id'', ''a'', ''b''], rows = [[Num 1, Num 1, Num 0]]\<rparr>"
    by code_simp
  from clean_data_drops_duplicates[OF h] h show ?thesis by simp
qed

section \<open>The other columns\<close>

text \<open>
  Claim C6. When \<^verbatim>\<open>clean_data\<close> returns a frame for a well-formed input whose
  \<^verbatim>\<open>categories\<close> column is at position \<open>j\<close>: the labels of the result are the
  other labels of the input in their order, followed by the category names; before
  duplicates are dropped the frame \<open>mid\<close> has one row per input row, in the same
  order, each the input row without its \<^verbatim>\<open>categories\<close> cell followed by the
  category integers, so every other column has the label and the values it had; and
  the rows of the result are rows of \<open>mid\<close> in the order of \<open>mid\<close>, all of them
  when no two are equal. The category columns stand after the other columns.
\<close>

theorem clean_data_keeps_other_columns:
  assumes "clean_data df = Inr out" and "wf_frame df"
  shows "\<exists>j names mid.
           positions ''categories'' (columns df) = [j] \<and> j < length (columns df) \<and>
           expand_categories df = Inr mid \<and>
           columns out = take j (columns df) @ drop (Suc j) (columns df) @ names \<and>
           length (rows mid) = length (rows df) \<and>
           (\<forall>i<length (rows df).
               \<exists>cats. length cats = length names \<and>
                 rows mid ! i = take j (rows df ! i) @ drop (Suc j) (rows df ! i) @ cats) \<and>
           (\<forall>p<length (columns df). p \<noteq> j \<longrightarrow>
               columns out ! (if p < j then p else p - 1) = columns df ! p \<and>
               column_at (if p < j then p else p - 1) (rows mid) = column_at p (rows df)) \<and>
           subseq (rows out) (rows mid) \<and> set (rows out) = set (rows mid) \<and>
           (distinct (rows mid) \<longrightarrow> rows out = rows mid)"
proof -
  from clean_data_rows[OF assms(1)] obtain mid where
    mid: "expand_categories df = Inr mid" and c: "columns out = columns mid" and
    ro: "rows out = keep_first [] (rows mid)"
    by blast
  from mid obtain j names s0 where
    pj: "positions ''categories'' (columns df) = [j]" and
    rne: "rows df \<noteq> []" and
    dn: "distinct names" and
    sw: "split_width (column_at j (rows df)) = length names" and
    cm: "columns mid = drop_at [j] (columns df) @ names" and
    lm: "length (rows mid) = length (rows df)" and
    s0: "rows df ! 0 ! j = Str s0" and
    nm: "names = map (\<lambda>t. hd (str_split (CHR ''-'') t)) (str_split (CHR '';'') s0)" and
    all0: "\<forall>i<length (rows df).
          \<exists>s vs. rows df ! i ! j = Str s \<and>
                 length (str_split (CHR '';'') s) = length names \<and>
                 map_err to_int (map (\<lambda>t. str_last (Str t)) (str_split (CHR '';'') s)) = Inr vs \<and>
                 rows mid ! i = drop_at [j] (rows df ! i) @ map (\<lambda>v. Num (binarize v)) vs"
    by (rule expand_categoriesE)
  have "j \<in> set (positions ''categories'' (columns df))" using pj by simp
  then have jl: "j < length (columns df)" by (simp add: positions_mem)
  have co: "columns out = take j (columns df) @ drop (Suc j) (columns df) @ names"
    using c cm drop_at_single[OF jl] by simp
  have rw: "\<forall>i<length (rows df).
               \<exists>cats. length cats = length names \<and>
                 rows mid ! i = take j (rows df ! i) @ drop (Suc j) (rows df ! i) @ cats"
  proof (intro allI impI)
    fix i assume i: "i < length (rows df)"
    with assms(2) have "length (rows df ! i) = length (columns df)"
      by (simp add: wf_frame_def list_all_length)
    with jl have jr: "j < length (rows df ! i)" by simp
    from all0 i obtain s vs where
      a: "length (str_split (CHR '';'') s) = length names"
         "map_err to_int (map (\<lambda>t. str_last (Str t)) (str_split (CHR '';'') s)) = Inr vs"
         "rows mid ! i = drop_at [j] (rows df ! i) @ map (\<lambda>v. Num (binarize v)) vs"
      by blast
    from map_err_length[OF a(2)] a(1) have "length (map (\<lambda>v. Num (binarize v)) vs) = length names"
      by simp
    with a(3) drop_at_single[OF jr]
    show "\<exists>cats. length cats = length names \<and>
                 rows mid ! i = take j (rows df ! i) @ drop (Suc j) (rows df ! i) @ cats"
      by auto
  qed
  have shift: "(take j xs @ drop (Suc j) xs @ ys) ! (if p < j then p else p - 1) = xs ! p"
    if "p < length xs" "p \<noteq> j" "j < length xs" for xs ys :: "'a list" and p
    using that by (auto simp: nth_append)
  have cw: "\<forall>p<length (columns df). p \<noteq> j \<longrightarrow>
               columns out ! (if p < j then p else p - 1) = columns df ! p \<and>
               column_at (if p < j then p else p - 1) (rows mid) = column_at p (rows df)"
  proof (intro allI impI)
    fix p assume p: "p < length (columns df)" and pn: "p \<noteq> j"
    have c1: "columns out ! (if p < j then p else p - 1) = columns df ! p"
      unfolding co by (rule shift[OF p pn jl])
    have c2: "column_at (if p < j then p else p - 1) (rows mid) = column_at p (rows df)"
      unfolding column_at_def
    proof (rule nth_equalityI)
      show "length (map (\<lambda>r. r ! (if p < j then p else p - 1)) (rows mid)) =
            length (map (\<lambda>r. r ! p) (rows df))"
        using lm by simp
    next
      fix i assume "i < length (map (\<lambda>r. r ! (if p < j then p else p - 1)) (rows mid))"
      with lm have i: "i < length (rows df)" by simp
      with assms(2) have li: "length (rows df ! i) = length (columns df)"
        by (simp add: wf_frame_def list_all_length)
      from rw i obtain cats where
        "rows mid ! i = take j (rows df ! i) @ drop (Suc j) (rows df ! i) @ cats"
        by blast
      then have "rows mid ! i ! (if p < j then p else p - 1) = rows df ! i ! p"
        using shift[of p "rows df ! i" cats] p pn jl li by simp
      with i lm
      show "map (\<lambda>r. r ! (if p < j then p else p - 1)) (rows mid) ! i =
            map (\<lambda>r. r ! p) (rows df) ! i"
        by simp
    qed
    from c1 c2
    show "columns out ! (if p < j then p else p - 1) = columns df ! p \<and>
          column_at (if p < j then p else p - 1) (rows mid) = column_at p (rows df)"
      by simp
  qed
  have sub: "subseq (rows out) (rows mid)" using ro by (simp add: keep_first_subseq)
  have s: "set (rows out) = set (rows mid)" using ro by (simp add: keep_first_set)
  have di: "distinct (rows mid) \<longrightarrow> rows out = rows mid"
    using ro by (simp add: keep_first_distinct_id)
  from pj jl mid co lm rw cw sub s di show ?thesis by blast
qed

theorem clean_data_keeps_other_columns_witness:
  "clean_data \<lparr>columns = [''id'', ''categories'', ''message''],
               rows = [[Num 1, Str ''a-1;b-0'', Str ''flood''],
                       [Num 2, Str ''a-0;b-2'', Str ''fire'']]\<rparr> =
   Inr \<lparr>columns = [''id'', ''message'', ''a'', ''b''],
        rows = [[Num 1, Str ''flood'', Num 1, Num 0],
                [Num 2, Str ''fire'', Num 0, Num 1]]\<rparr> \<and>
   wf_frame \<lparr>columns = [''id'', ''categories'', ''message''],
             rows = [[Num 1, Str ''a-1;b-0'', Str ''flood''],
                     [Num 2, Str ''a-0;b-2'', Str ''fire'']]\<rparr> \<and>
   (\<exists>j names. positions ''categories'' [''id'', ''categories'', ''message''] = [j] \<and>
       [''id'', ''message'', ''a'', ''b''] =
         take j [''id'', ''categories'', ''message''] @
         drop (Suc j) [''id'', ''categories'', ''message''] @ names)"
proof -
  have h: "clean_data \<lparr>columns = [''id'', ''categories'', ''message''],
               rows = [[Num 1, Str ''a-1;b-0'', Str ''flood''],
                       [Num 2, Str ''a-0;b-2'', Str ''fire'']]\<rparr> =
   Inr \<lparr>columns = [''id'', ''message'', ''a'', ''b''],
        rows = [[Num 1, Str ''flood'', Num 1, Num 0],
                [Num 2, Str ''fire'', Num 0, Num 1]]\<rparr>"
    by code_simp
  have w: "wf_frame \<lparr>columns = [''id'', ''categories'', ''message''],
             rows = [[Num 1, Str ''a-1;b-0'', Str ''flood''],
                     [Num 2, Str ''a-0;b-2'', Str ''fire'']]\<rparr>"
    by (simp add: wf_frame_def)
  from clean_data_keeps_other_columns[OF h w] h w show ?thesis by simp blast
qed

section \<open>The extracted character\<close>

text \<open>
  Claim C2 says that the value line 37 extracts is the integer parse of the character
  after the last \<^verbatim>\<open>-\<close> of the token, and that this character is the last character
  of the token. The two differ when more than one character follows the last
  \<^verbatim>\<open>-\<close>: for the token \<^verbatim>\<open>related-10\<close> the character after the last \<^verbatim>\<open>-\<close> is
  \<^verbatim>\<open>1\<close>, with the parse 1, while the code takes the last character \<^verbatim>\<open>0\<close>,
  extracts 0 and returns the cell 0.
\<close>

theorem extracted_character_counterexample:
  "clean_data \<lparr>columns = [''id'', ''categories''], rows = [[Num 1, Str ''related-10'']]\<rparr> =
     Inr \<lparr>columns = [''id'', ''related''], rows = [[Num 1, Num 0]]\<rparr> \<and>
   extract_ints (column_at 0 (str_split_expand (column_at 1 [[Num 1, Str ''related-10'']]))) =
     Inr [0] \<and>
   char_after_last_dash ''related-10'' = Some (CHR ''1'') \<and>
   to_int (Str [CHR ''1'']) = Inr 1 \<and>
   last ''related-10'' = CHR ''0''"
  by code_simp

text \<open>
  Claim C2, amended. When \<^verbatim>\<open>clean_data\<close> returns a frame, then for every category
  column \<open>k\<close> line 37 succeeds on the column of the \<open>k\<close>-th pieces, and for every
  row \<open>i\<close> the value it extracts is the integer parse of the last character of the
  \<open>k\<close>-th \<^verbatim>\<open>;\<close>-separated piece of that row's \<^verbatim>\<open>categories\<close> value, which
  is not empty. That character is the character after the last \<^verbatim>\<open>-\<close> whenever the
  piece has a \<^verbatim>\<open>-\<close> and exactly one character follows the last one.
\<close>

theorem clean_data_extracts_last_character:
  assumes "clean_data df = Inr out"
  shows "\<exists>j names.
           positions ''categories'' (columns df) = [j] \<and>
           columns out = filter (\<lambda>c. c \<noteq> ''categories'') (columns df) @ names \<and>
           (\<forall>k<length names.
              \<exists>vs. extract_ints (column_at k (str_split_expand (column_at j (rows df)))) = Inr vs \<and>
                 length vs = length (rows df) \<and>
                 (\<forall>i<length (rows df).
                    \<exists>s t. rows df ! i ! j = Str s \<and> k < length (str_split (CHR '';'') s) \<and>
                      t = str_split (CHR '';'') s ! k \<and> t \<noteq> [] \<and>
                      digit_value (last t) = Some (vs ! i) \<and>
                      (CHR ''-'' \<in> set t \<and> length (last (str_split (CHR ''-'') t)) = 1 \<longrightarrow>
                         char_after_last_dash t = Some (last t))))"
proof -
  from clean_data_rows[OF assms] obtain mid where
    mid: "expand_categories df = Inr mid" and c: "columns out = columns mid"
    by blast
  from mid obtain j names s0 where
    pj: "positions ''categories'' (columns df) = [j]" and
    rne: "rows df \<noteq> []" and
    dn: "distinct names" and
    sw: "split_width (column_at j (rows df)) = length names" and
    cm: "columns mid = drop_at [j] (columns df) @ names" and
    lm: "length (rows mid) = length (rows df)" and
    s0: "rows df ! 0 ! j = Str s0" and
    nm: "names = map (\<lambda>t. hd (str_split (CHR ''-'') t)) (str_split (CHR '';'') s0)" and
    all0: "\<forall>i<length (rows df).
          \<exists>s vs. rows df ! i ! j = Str s \<and>
                 length (str_split (CHR '';'') s) = length names \<and>
                 map_err to_int (map (\<lambda>t. str_last (Str t)) (str_split (CHR '';'') s)) = Inr vs \<and>
                 rows mid ! i = drop_at [j] (rows df ! i) @ map (\<lambda>v. Num (binarize v)) vs"
    by (rule expand_categoriesE)
  let ?col = "column_at j (rows df)"
  let ?E = "str_split_expand ?col"
  from drop_at_positions[of "''categories''" "columns df"] pj c cm
  have co: "columns out = filter (\<lambda>c. c \<noteq> ''categories'') (columns df) @ names"
    by simp
  have lE: "length ?E = length (rows df)"
    by (simp add: str_split_expand_def column_at_def)
  have cellE: "\<exists>s v. rows df ! i ! j = Str s \<and> k < length (str_split (CHR '';'') s) \<and>
                 ?E ! i ! k = Str (str_split (CHR '';'') s ! k) \<and>
                 to_int (str_last (?E ! i ! k)) = Inr v"
    if i: "i < length (rows df)" and k: "k < length names" for i k
  proof -
    from all0 i obtain s vs where
      a: "rows df ! i ! j = Str s"
         "length (str_split (CHR '';'') s) = length names"
         "map_err to_int (map (\<lambda>t. str_last (Str t)) (str_split (CHR '';'') s)) = Inr vs"
      by blast
    have "?E ! i = split_row (length names) (Str s)"
      using i a(1) sw by (simp add: str_split_expand_def column_at_def)
    then have Ei: "?E ! i = map Str (str_split (CHR '';'') s)"
      using a(2) by (simp add: split_row_def Let_def)
    from map_err_nth[OF a(3), of k] k a(2)
    have "to_int (str_last (Str (str_split (CHR '';'') s ! k))) = Inr (vs ! k)" by simp
    with Ei a k show ?thesis by simp
  qed
  have colk: "\<exists>vs. extract_ints (column_at k ?E) = Inr vs \<and>
                 length vs = length (rows df) \<and>
                 (\<forall>i<length (rows df).
                    \<exists>s t. rows df ! i ! j = Str s \<and> k < length (str_split (CHR '';'') s) \<and>
                      t = str_split (CHR '';'') s ! k \<and> t \<noteq> [] \<and>
                      digit_value (last t) = Some (vs ! i) \<and>
                      (CHR ''-'' \<in> set t \<and> length (last (str_split (CHR ''-'') t)) = 1 \<longrightarrow>
                         char_after_last_dash t = Some (last t)))"
    if k: "k < length names" for k
  proof -
    have "\<forall>x\<in>set (map str_last (column_at k ?E)). \<exists>y. to_int x = Inr y"
    proof
      fix x assume "x \<in> set (map str_last (column_at k ?E))"
      then obtain i where i: "i < length (rows df)" "x = str_last (?E ! i ! k)"
        using lE by (auto simp: column_at_def in_set_conv_nth)
      from cellE[OF i(1) k] i(2) show "\<exists>y. to_int x = Inr y" by auto
    qed
    from map_err_total[OF this] obtain vs where
      vs: "map_err to_int (map str_last (column_at k ?E)) = Inr vs" ..
    from map_err_length[OF vs] lE have lvs: "length vs = length (rows df)"
      by (simp add: column_at_def)
    have rowsP: "\<forall>i<length (rows df).
                    \<exists>s t. rows df ! i ! j = Str s \<and> k < length (str_split (CHR '';'') s) \<and>
                      t = str_split (CHR '';'') s ! k \<and> t \<noteq> [] \<and>
                      digit_value (last t) = Some (vs ! i) \<and>
                      (CHR ''-'' \<in> set t \<and> length (last (str_split (CHR ''-'') t)) = 1 \<longrightarrow>
                         char_after_last_dash t = Some (last t))"
    proof (intro allI impI)
      fix i assume i: "i < length (rows df)"
      from cellE[OF i k] obtain s where
        s: "rows df ! i ! j = Str s" "k < length (str_split (CHR '';'') s)"
           "?E ! i ! k = Str (str_split (CHR '';'') s ! k)"
        by blast
      let ?t = "str_split (CHR '';'') s ! k"
      from map_err_nth[OF vs, of i] i lE
      have "to_int (str_last (?E ! i ! k)) = Inr (vs ! i)"
        by (simp add: column_at_def)
      with s(3) have "to_int (str_last (Str ?t)) = Inr (vs ! i)" by simp
      from to_int_str_last[OF this]
      have t: "?t \<noteq> []" "digit_value (last ?t) = Some (vs ! i)" by auto
      have "CHR ''-'' \<in> set ?t \<and> length (last (str_split (CHR ''-'') ?t)) = 1 \<longrightarrow>
              char_after_last_dash ?t = Some (last ?t)"
        using char_after_last_dash_single by blast
      with s t
      show "\<exists>s t. rows df ! i ! j = Str s \<and> k < length (str_split (CHR '';'') s) \<and>
                      t = str_split (CHR '';'') s ! k \<and> t \<noteq> [] \<and>
                      digit_value (last t) = Some (vs ! i) \<and>
                      (CHR ''-'' \<in> set t \<and> length (last (str_split (CHR ''-'') t)) = 1 \<longrightarrow>
                         char_after_last_dash t = Some (last t))"
        by blast
    qed
    from vs lvs rowsP show ?thesis unfolding extract_ints_def by blast
  qed
  from pj co colk show ?thesis by blast
qed

theorem clean_data_extracts_last_character_witness:
  "clean_data \<lparr>columns = [''id'', ''categories''],
               rows = [[Num 1, Str ''related-1;request-0''], [Num 2, Str ''related-2;request-1'']]\<rparr> =
     Inr \<lparr>columns = [''id'', ''related'', ''request''],
          rows = [[Num 1, Num 1, Num 0], [Num 2, Num 1, Num 1]]\<rparr> \<and>
   extract_ints (column_at 0 (str_split_expand (column_at 1
      [[Num 1, Str ''related-1;request-0''], [Num 2, Str ''related-2;request-1'']]))) = Inr [1, 2] \<and>
   char_after_last_dash ''related-2'' = Some (last ''related-2'') \<and>
   (\<exists>j names. positions ''categories'' [''id'', ''categories''] = [j] \<and>
      [''id'', ''related'', ''request''] =
        filter (\<lambda>c. c \<noteq> ''categories'') [''id'', ''categories''] @ names)"
proof -
  have h: "clean_data \<lparr>columns = [''id'', ''categories''],
               rows = [[Num 1, Str ''related-1;request-0''], [Num 2, Str ''related-2;request-1'']]\<rparr> =
     Inr \<lparr>columns = [''id'', ''related'', ''request''],
          rows = [[Num 1, Num 1, Num 0], [Num 2, Num 1, Num 1]]\<rparr>"
    by code_simp
  have e: "extract_ints (column_at 0 (str_split_expand (column_at 1
      [[Num 1, Str ''related-1;request-0''], [Num 2, Str ''related-2;request-1'']]))) = Inr [1, 2]"
    by code_simp
  have d: "char_after_last_dash ''related-2'' = Some (last ''related-2'')"
    by code_simp
  from clean_data_extracts_last_character[OF h] have
    "\<exists>j names. positions ''categories'' [''id'', ''categories''] = [j] \<and>
      [''id'', ''related'', ''request''] =
        filter (\<lambda>c. c \<noteq> ''categories'') [''id'', ''categories''] @ names"
    by simp blast
  with h e d show ?thesis by blast
qed

section \<open>The loader joins on the identifier\<close>



end
